theory Spec2Isabelle
  imports Main "HOL-Library.AList"
begin

section \<open>Python values\<close>

text \<open>
  The secrets definition of an experiment and the payloads of the secret store are JSON
  documents held as Python objects. A dictionary is an association list in insertion
  order, as Python iterates it, with string keys, as JSON has them; a Python dictionary
  never holds a key twice, which is the predicate \<open>wf_secrets\<close> below where a theorem
  needs it. Floating-point numbers are not part of the model. The secrets definition
  itself is typed as the signature of \<^verbatim>\<open>load_secrets\<close> declares it, a dictionary of
  dictionaries; what a secret name maps to is an arbitrary value.
\<close>

datatype pyval =
    PNone
  | PBool bool
  | PInt int
  | PStr string
  | PList "pyval list"
  | PDict "(string \<times> pyval) list"

type_synonym pydict = "(string \<times> pyval) list"

text \<open>The exceptions the module raises or lets through.\<close>

datatype pyerror =
    InvalidExperiment string
  | KeyError string
  | TypeError
  | AttributeError
  | StoreError string

text \<open>Truth value of an object, as \<^verbatim>\<open>not x\<close> tests it.\<close>

fun truthy :: "pyval \<Rightarrow> bool" where
  "truthy PNone = False"
| "truthy (PBool b) = b"
| "truthy (PInt i) = (i \<noteq> 0)"
| "truthy (PStr s) = (s \<noteq> [])"
| "truthy (PList xs) = (xs \<noteq> [])"
| "truthy (PDict d) = (d \<noteq> [])"

text \<open>\<^verbatim>\<open>d.get(k)\<close> and \<^verbatim>\<open>d.get(k, default)\<close> on a dictionary \<open>d\<close>.\<close>

definition dict_get_default :: "pydict \<Rightarrow> string \<Rightarrow> pyval \<Rightarrow> pyval" where
  "dict_get_default d k dflt = (case map_of d k of None \<Rightarrow> dflt | Some v \<Rightarrow> v)"

definition dict_get :: "pydict \<Rightarrow> string \<Rightarrow> pyval" where
  "dict_get d k = dict_get_default d k PNone"

text \<open>\<^verbatim>\<open>d[k]\<close> on a dictionary: a missing key raises \<^verbatim>\<open>KeyError\<close>.\<close>

definition dict_item :: "pydict \<Rightarrow> string \<Rightarrow> pyerror + pyval" where
  "dict_item d k = (case map_of d k of None \<Rightarrow> Inl (KeyError k) | Some v \<Rightarrow> Inr v)"

text \<open>
  \<^verbatim>\<open>x.get(k, default)\<close> and \<^verbatim>\<open>x[k]\<close> on an arbitrary object with a string \<open>k\<close>: only a
  dictionary has \<^verbatim>\<open>get\<close>; subscripting \<^verbatim>\<open>None\<close>, a number, a string or a list with a
  string raises \<^verbatim>\<open>TypeError\<close>.
\<close>

fun py_get :: "pyval \<Rightarrow> string \<Rightarrow> pyval \<Rightarrow> pyerror + pyval" where
  "py_get (PDict d) k dflt = Inr (dict_get_default d k dflt)"
| "py_get _ k dflt = Inl AttributeError"

fun py_item :: "pyval \<Rightarrow> string \<Rightarrow> pyerror + pyval" where
  "py_item (PDict d) k = dict_item d k"
| "py_item _ k = Inl TypeError"

text \<open>
  Python's \<^verbatim>\<open>==\<close> on these values: \<^verbatim>\<open>True == 1\<close> and \<^verbatim>\<open>False == 0\<close>, lists are
  compared element by element, dictionaries as mappings (whatever the order).
\<close>

fun py_eq :: "pyval \<Rightarrow> pyval \<Rightarrow> bool"
  and py_eq_list :: "pyval list \<Rightarrow> pyval list \<Rightarrow> bool"
  and py_sub_dict :: "pydict \<Rightarrow> pydict \<Rightarrow> bool" where
  "py_eq PNone y = (y = PNone)"
| "py_eq (PBool b) y = (y = PBool b \<or> y = PInt (if b then 1 else 0))"
| "py_eq (PInt i) y = (y = PInt i \<or> (i = 1 \<and> y = PBool True) \<or> (i = 0 \<and> y = PBool False))"
| "py_eq (PStr s) y = (y = PStr s)"
| "py_eq (PList xs) y = (case y of PList ys \<Rightarrow> py_eq_list xs ys | _ \<Rightarrow> False)"
| "py_eq (PDict d) y =
     (case y of PDict e \<Rightarrow> length d = length e \<and> py_sub_dict d e | _ \<Rightarrow> False)"
| "py_eq_list [] ys = (ys = [])"
| "py_eq_list (x # xs) ys =
     (case ys of [] \<Rightarrow> False | y # ys' \<Rightarrow> py_eq x y \<and> py_eq_list xs ys')"
| "py_sub_dict [] e = True"
| "py_sub_dict ((k, v) # d) e =
     (case map_of e k of None \<Rightarrow> False | Some v' \<Rightarrow> py_eq v v' \<and> py_sub_dict d e)"

text \<open>Whether \<open>sub\<close> occurs in \<open>s\<close> as a contiguous run, as \<^verbatim>\<open>sub in s\<close> on strings.\<close>

fun is_substring :: "string \<Rightarrow> string \<Rightarrow> bool" where
  "is_substring sub [] = (sub = [])"
| "is_substring sub (c # s) = (take (length sub) (c # s) = sub \<or> is_substring sub s)"

text \<open>
  \<^verbatim>\<open>x in container\<close>. A dictionary hashes \<open>x\<close> (a list or a dictionary is unhashable)
  and has string keys only; a string accepts only a string on the left; a list compares
  with \<^verbatim>\<open>==\<close>; \<^verbatim>\<open>None\<close> and numbers are not containers.
\<close>

fun py_contains :: "pyval \<Rightarrow> pyval \<Rightarrow> pyerror + bool" where
  "py_contains (PStr s) (PDict d) = Inr (s \<in> fst ` set d)"
| "py_contains (PList _) (PDict d) = Inl TypeError"
| "py_contains (PDict _) (PDict d) = Inl TypeError"
| "py_contains _ (PDict d) = Inr False"
| "py_contains (PStr sub) (PStr s) = Inr (is_substring sub s)"
| "py_contains _ (PStr s) = Inl TypeError"
| "py_contains x (PList ys) = Inr (list_ex (\<lambda>y. py_eq y x) ys)"
| "py_contains x _ = Inl TypeError"

text \<open>\<^verbatim>\<open>data.get(key)\<close> with an arbitrary object as the key.\<close>

fun py_get_obj :: "pyval \<Rightarrow> pyval \<Rightarrow> pyerror + pyval" where
  "py_get_obj (PDict d) (PStr s) = Inr (dict_get d s)"
| "py_get_obj (PDict d) (PList _) = Inl TypeError"
| "py_get_obj (PDict d) (PDict _) = Inl TypeError"
| "py_get_obj (PDict d) _ = Inr PNone"
| "py_get_obj _ _ = Inl AttributeError"

text \<open>
  \<^verbatim>\<open>str(x)\<close> and \<^verbatim>\<open>repr(x)\<close>. A character of the model is a code point below 256.
  \<^verbatim>\<open>repr\<close> of a string puts it between single quotes, or between double quotes when
  it holds a single quote and no double quote; it escapes the backslash and the quote
  in use, writes tab, newline and carriage return as \<^verbatim>\<open>\t\<close>, \<^verbatim>\<open>\n\<close>, \<^verbatim>\<open>\r\<close>, and
  every other code point that is not printable (below 32, from 127 to 160, and 173) as
  \<^verbatim>\<open>\x\<close> and two lower-case hexadecimal digits.
\<close>

definition hex_digit :: "nat \<Rightarrow> char" where
  "hex_digit n = ''0123456789abcdef'' ! n"

definition repr_char :: "char \<Rightarrow> char \<Rightarrow> string" where
  "repr_char quote c =
     (if c = CHR 0x5C then [CHR 0x5C, CHR 0x5C]
      else if c = quote then [CHR 0x5C, quote]
      else if c = CHR 0x09 then [CHR 0x5C, CHR ''t'']
      else if c = CHR 0x0A then [CHR 0x5C, CHR ''n'']
      else if c = CHR 0x0D then [CHR 0x5C, CHR ''r'']
      else (let n = (of_char c :: nat)
            in if n < 32 \<or> (127 \<le> n \<and> n \<le> 160) \<or> n = 173
               then [CHR 0x5C, CHR ''x'', hex_digit (n div 16), hex_digit (n mod 16)]
               else [c]))"

definition repr_str :: "string \<Rightarrow> string" where
  "repr_str s =
     (let quote = (if CHR 0x27 \<in> set s \<and> CHR 0x22 \<notin> set s then CHR 0x22 else CHR 0x27)
      in [quote] @ concat (map (repr_char quote) s) @ [quote])"

fun str_of_nat :: "nat \<Rightarrow> string" where
  "str_of_nat n =
     (if n < 10 then [''0123456789'' ! n]
      else str_of_nat (n div 10) @ [''0123456789'' ! (n mod 10)])"

definition str_of_int :: "int \<Rightarrow> string" where
  "str_of_int i = (if i < 0 then ''-'' @ str_of_nat (nat (- i)) else str_of_nat (nat i))"

fun join_comma :: "string list \<Rightarrow> string" where
  "join_comma [] = []"
| "join_comma [s] = s"
| "join_comma (s # t # ss) = s @ '', '' @ join_comma (t # ss)"

fun py_repr :: "pyval \<Rightarrow> string" where
  "py_repr PNone = ''None''"
| "py_repr (PBool b) = (if b then ''True'' else ''False'')"
| "py_repr (PInt i) = str_of_int i"
| "py_repr (PStr s) = repr_str s"
| "py_repr (PList xs) = ''['' @ join_comma (map py_repr xs) @ '']''"
| "py_repr (PDict d) =
     ''{'' @ join_comma (map (\<lambda>(k, v). repr_str k @ '': '' @ py_repr v) d) @ ''}''"

fun py_str :: "pyval \<Rightarrow> string" where
  "py_str (PStr s) = s"
| "py_str v = py_repr v"

text \<open>
  \<^verbatim>\<open>d.update(other)\<close>: every item of \<open>other\<close>, in its order, is stored into \<open>d\<close>; a key
  that \<open>d\<close> has keeps its place, a new key goes to the end.
\<close>

definition dict_update :: "('k \<times> 'v) list \<Rightarrow> ('k \<times> 'v) list \<Rightarrow> ('k \<times> 'v) list" where
  "dict_update d other = fold (\<lambda>(k, v). AList.update k v) other d"

section \<open>The environment of a call\<close>

text \<open>
  The client object of the \<^verbatim>\<open>hvac\<close> library, reduced to the attributes this module
  reads or writes: the address it was built for, \<^verbatim>\<open>secrets.kv.default_kv_version\<close> and
  \<^verbatim>\<open>token\<close>.
\<close>

record vault_client =
  url :: pyval
  default_kv_version :: string
  token :: pyval

text \<open>
  What a call depends on besides its arguments: whether \<^verbatim>\<open>import hvac\<close> succeeded
  (\<^verbatim>\<open>HAS_HVAC\<close>), the process environment \<^verbatim>\<open>os.environ\<close>, and the \<^verbatim>\<open>hvac\<close> library with
  the store behind it. The library is not part of this module: its constructor and its
  three requests are parameters. A request either raises (for \<^verbatim>\<open>auth_approle\<close> the
  left value is \<^verbatim>\<open>str\<close> of the exception, for a read it is the exception) or returns
  the decoded response.
\<close>

record world =
  has_hvac :: bool
  environ :: "string \<rightharpoonup> string"
  hvac_Client :: "pyval \<Rightarrow> vault_client"
  auth_approle :: "vault_client \<Rightarrow> pyval \<Rightarrow> pyval \<Rightarrow> string + pyval"
  read_secret :: "vault_client \<Rightarrow> pyval \<Rightarrow> pyerror + pyval"
  read_secret_version :: "vault_client \<Rightarrow> pyval \<Rightarrow> pyerror + pyval"

text \<open>
  The secrets definition (target, then secret name, then value or reference), the
  resolved secrets of the same shape, and the configuration, which defaults to
  \<^verbatim>\<open>None\<close>.
\<close>

type_synonym secrets = "(string \<times> pydict) list"
type_synonym configuration = "pydict option"

section \<open>The store client\<close>

text \<open>
  \<^verbatim>\<open>create_vault_client\<close>. With \<^verbatim>\<open>hvac\<close> missing the client is \<^verbatim>\<open>None\<close> and the
  configuration is not looked at. Otherwise \<^verbatim>\<open>configuration.get\<close> on \<^verbatim>\<open>None\<close> raises
  \<^verbatim>\<open>AttributeError\<close>; the token is assigned when the configuration has one, else the
  role is exchanged when it has both role fields, else the client is left as built.
  Only the exchange itself is inside the \<^verbatim>\<open>try\<close>; the subscripts on its response are
  not.
\<close>

definition approle_token :: "pyval \<Rightarrow> pyerror + pyval" where
  "approle_token app_role =
     (case py_item app_role ''auth'' of
        Inl e \<Rightarrow> Inl e
      | Inr auth \<Rightarrow> py_item auth ''client_token'')"

definition create_vault_client :: "world \<Rightarrow> configuration \<Rightarrow> pyerror + vault_client option" where
  "create_vault_client w configuration =
     (if has_hvac w then
        (case configuration of
           None \<Rightarrow> Inl AttributeError
         | Some conf \<Rightarrow>
             (let url = dict_get conf ''vault_addr'';
                  client = hvac_Client w url;
                  client = client\<lparr>default_kv_version :=
                             py_str (dict_get_default conf ''vault_kv_version'' (PStr ''2''))\<rparr>
              in if ''vault_token'' \<in> fst ` set conf then
                   Inr (Some (client\<lparr>token := dict_get conf ''vault_token''\<rparr>))
                 else if ''vault_role_id'' \<in> fst ` set conf \<and>
                         ''vault_role_secret'' \<in> fst ` set conf then
                   (let role_id = dict_get conf ''vault_role_id'';
                        role_secret = dict_get conf ''vault_role_secret''
                    in case auth_approle w client role_id role_secret of
                         Inl ve \<Rightarrow>
                           Inl (InvalidExperiment
                                  (''Failed to connect to Vault with the AppRole: '' @ ve))
                       | Inr app_role \<Rightarrow>
                           (case approle_token app_role of
                              Inl e \<Rightarrow> Inl e
                            | Inr tok \<Rightarrow> Inr (Some (client\<lparr>token := tok\<rparr>))))
                 else Inr (Some client)))
      else Inr None)"

text \<open>
  The client as \<^verbatim>\<open>create_vault_client\<close> has it before it looks at the credentials:
  built for the configured address, with the KV version of the configuration.
\<close>

definition built_client :: "world \<Rightarrow> pydict \<Rightarrow> vault_client" where
  "built_client w conf =
     (hvac_Client w (dict_get conf ''vault_addr''))
       \<lparr>default_kv_version := py_str (dict_get_default conf ''vault_kv_version'' (PStr ''2''))\<rparr>"

section \<open>The three loaders\<close>

text \<open>
  Each loader walks the targets in order; for a target it starts an empty dictionary,
  fills it from the target's items and drops the target again when nothing was stored.
  The inner dictionary is reachable only through \<^verbatim>\<open>secrets[target]\<close>, so the model
  builds it on its own and stores it under the target afterwards. The calls to the
  logger have no part in what is returned or raised and are left out.
\<close>

definition close_target :: "string \<Rightarrow> pydict \<Rightarrow> secrets \<Rightarrow> secrets" where
  "close_target target d secrets =
     (let secrets = AList.update target d (AList.update target [] secrets)
      in if d = [] then AList.delete target secrets else secrets)"

subsection \<open>Inline values\<close>

text \<open>
  The body of the inner loop of \<^verbatim>\<open>load_inline_secrets\<close>: the value to store, if any.
  The membership test \<^verbatim>\<open>not in ("env", "vault")\<close> compares with \<^verbatim>\<open>==\<close>, which only a
  string passes.
\<close>

fun inline_entry :: "pyval \<Rightarrow> pyval option" where
  "inline_entry (PDict r) =
     (if dict_get r ''type'' \<noteq> PStr ''env'' \<and> dict_get r ''type'' \<noteq> PStr ''vault''
      then Some (PDict r) else None)"
| "inline_entry v = Some v"

fun inline_keys :: "pydict \<Rightarrow> pydict \<Rightarrow> pydict" where
  "inline_keys [] acc = acc"
| "inline_keys ((key, v) # rest) acc =
     (case inline_entry v of
        Some x \<Rightarrow> inline_keys rest (AList.update key x acc)
      | None \<Rightarrow> inline_keys rest acc)"

fun inline_targets :: "secrets \<Rightarrow> secrets \<Rightarrow> secrets" where
  "inline_targets [] secrets = secrets"
| "inline_targets ((target, keys) # rest) secrets =
     inline_targets rest (close_target target (inline_keys keys []) secrets)"

definition load_inline_secrets :: "secrets \<Rightarrow> configuration \<Rightarrow> secrets" where
  "load_inline_secrets secrets_info configuration = inline_targets secrets_info []"

subsection \<open>Environment variables\<close>

text \<open>
  The body of the inner loop of \<^verbatim>\<open>load_secrets_from_env\<close>. \<^verbatim>\<open>value["key"]\<close> raises
  \<^verbatim>\<open>KeyError\<close> when the reference has no such field, and \<^verbatim>\<open>os.environ\<close> accepts only
  a string in a membership test.
\<close>

definition missing_env_key :: "string \<Rightarrow> pyerror" where
  "missing_env_key env_key =
     InvalidExperiment
       (''Secrets make reference to an environment key that does not exist: '' @ env_key)"

fun env_lookup :: "world \<Rightarrow> pyval \<Rightarrow> pyerror + pyval option" where
  "env_lookup w (PStr env_key) =
     (case environ w env_key of
        None \<Rightarrow> Inl (missing_env_key env_key)
      | Some x \<Rightarrow> Inr (Some (PStr x)))"
| "env_lookup w _ = Inl TypeError"

fun env_entry :: "world \<Rightarrow> pyval \<Rightarrow> pyerror + pyval option" where
  "env_entry w (PDict r) =
     (if dict_get r ''type'' = PStr ''env'' then
        (case dict_item r ''key'' of
           Inl e \<Rightarrow> Inl e
         | Inr env_key \<Rightarrow> env_lookup w env_key)
      else Inr None)"
| "env_entry w v = Inr None"

fun env_keys :: "world \<Rightarrow> pydict \<Rightarrow> pydict \<Rightarrow> pyerror + pydict" where
  "env_keys w [] acc = Inr acc"
| "env_keys w ((key, v) # rest) acc =
     (case env_entry w v of
        Inl e \<Rightarrow> Inl e
      | Inr None \<Rightarrow> env_keys w rest acc
      | Inr (Some x) \<Rightarrow> env_keys w rest (AList.update key x acc))"

fun env_targets :: "world \<Rightarrow> secrets \<Rightarrow> secrets \<Rightarrow> pyerror + secrets" where
  "env_targets w [] secrets = Inr secrets"
| "env_targets w ((target, keys) # rest) secrets =
     (case env_keys w keys [] of
        Inl e \<Rightarrow> Inl e
      | Inr d \<Rightarrow> env_targets w rest (close_target target d secrets))"

definition load_secrets_from_env :: "world \<Rightarrow> secrets \<Rightarrow> configuration \<Rightarrow> pyerror + secrets" where
  "load_secrets_from_env w secrets_info configuration = env_targets w secrets_info []"

subsection \<open>The secret store\<close>

text \<open>
  The two ways out of the loops of \<^verbatim>\<open>load_secrets_from_vault\<close> other than their end:
  \<^verbatim>\<open>return {}\<close> when \<^verbatim>\<open>hvac\<close> is missing, and an exception.
\<close>

datatype vault_exit = Return_empty | Raised pyerror

text \<open>
  The read request for the client's KV version. The client is \<^verbatim>\<open>None\<close> only when
  \<^verbatim>\<open>hvac\<close> is missing; \<^verbatim>\<open>client.secrets\<close> would then raise \<^verbatim>\<open>AttributeError\<close>.
\<close>

definition is_kv1 :: "vault_client \<Rightarrow> bool" where
  "is_kv1 c = (default_kv_version c = ''1'')"

definition read_payload :: "world \<Rightarrow> vault_client \<Rightarrow> pyval \<Rightarrow> pyerror + pyval" where
  "read_payload w c path =
     (if is_kv1 c then read_secret w c path else read_secret_version w c path)"

text \<open>
  \<^verbatim>\<open>vault_payload.get("data")\<close> for version 1,
  \<^verbatim>\<open>vault_payload.get("data", {}).get("data")\<close> otherwise.
\<close>

definition payload_data :: "vault_client \<Rightarrow> pyval \<Rightarrow> pyerror + pyval" where
  "payload_data c vault_payload =
     (if is_kv1 c then py_get vault_payload ''data'' PNone
      else (case py_get vault_payload ''data'' (PDict []) of
              Inl e \<Rightarrow> Inl e
            | Inr inner \<Rightarrow> py_get inner ''data'' PNone))"

text \<open>
  The part of the loop body after the data is known: the named field when the
  reference has a \<^verbatim>\<open>key\<close> (skipping the entry when the data lacks it), else the data.
\<close>

definition select_key :: "pydict \<Rightarrow> pyval \<Rightarrow> pyerror + pyval option" where
  "select_key r data =
     (case map_of r ''key'' of
        None \<Rightarrow> Inr (Some data)
      | Some vault_key \<Rightarrow>
          (case py_contains vault_key data of
             Inl e \<Rightarrow> Inl e
           | Inr False \<Rightarrow> Inr None
           | Inr True \<Rightarrow>
               (case py_get_obj data vault_key of
                  Inl e \<Rightarrow> Inl e
                | Inr x \<Rightarrow> Inr (Some x))))"

definition vault_fetch :: "world \<Rightarrow> vault_client option \<Rightarrow> pydict \<Rightarrow> pyerror + pyval option" where
  "vault_fetch w client r =
     (let path = dict_get r ''path''
      in if path = PNone then Inr None
         else (case client of
                 None \<Rightarrow> Inl AttributeError
               | Some c \<Rightarrow>
                   (case read_payload w c path of
                      Inl e \<Rightarrow> Inl e
                    | Inr vault_payload \<Rightarrow>
                        if \<not> truthy vault_payload then Inr None
                        else (case payload_data c vault_payload of
                                Inl e \<Rightarrow> Inl e
                              | Inr data \<Rightarrow> select_key r data))))"

fun vault_entry :: "world \<Rightarrow> vault_client option \<Rightarrow> pyval \<Rightarrow> vault_exit + pyval option" where
  "vault_entry w client (PDict r) =
     (if dict_get r ''type'' = PStr ''vault'' then
        (if \<not> has_hvac w then Inl Return_empty
         else (case vault_fetch w client r of
                 Inl e \<Rightarrow> Inl (Raised e)
               | Inr x \<Rightarrow> Inr x))
      else Inr None)"
| "vault_entry w client v = Inr None"

fun vault_keys :: "world \<Rightarrow> vault_client option \<Rightarrow> pydict \<Rightarrow> pydict \<Rightarrow> vault_exit + pydict" where
  "vault_keys w client [] acc = Inr acc"
| "vault_keys w client ((key, v) # rest) acc =
     (case vault_entry w client v of
        Inl e \<Rightarrow> Inl e
      | Inr None \<Rightarrow> vault_keys w client rest acc
      | Inr (Some x) \<Rightarrow> vault_keys w client rest (AList.update key x acc))"

fun vault_targets :: "world \<Rightarrow> vault_client option \<Rightarrow> secrets \<Rightarrow> secrets \<Rightarrow> vault_exit + secrets" where
  "vault_targets w client [] secrets = Inr secrets"
| "vault_targets w client ((target, keys) # rest) secrets =
     (case vault_keys w client keys [] of
        Inl e \<Rightarrow> Inl e
      | Inr d \<Rightarrow> vault_targets w client rest (close_target target d secrets))"

definition load_secrets_from_vault :: "world \<Rightarrow> secrets \<Rightarrow> configuration \<Rightarrow> pyerror + secrets" where
  "load_secrets_from_vault w secrets_info configuration =
     (case create_vault_client w configuration of
        Inl e \<Rightarrow> Inl e
      | Inr client \<Rightarrow>
          (case vault_targets w client secrets_info [] of
             Inl Return_empty \<Rightarrow> Inr []
           | Inl (Raised e) \<Rightarrow> Inl e
           | Inr secrets \<Rightarrow> Inr secrets))"

section \<open>Merging the loaders' results\<close>

text \<open>
  The inner loop of \<^verbatim>\<open>load_secrets\<close> over one loader's result: a target the
  accumulated secrets lack is added with an empty dictionary, then the target's
  dictionary is updated with the loader's.
\<close>

fun merge_loaded :: "secrets \<Rightarrow> secrets \<Rightarrow> secrets" where
  "merge_loaded [] secrets = secrets"
| "merge_loaded ((key, v) # rest) secrets =
     (let secrets = (if key \<in> fst ` set secrets then secrets else AList.update key [] secrets)
      in merge_loaded rest
           (AList.update key (dict_update (case map_of secrets key of Some d \<Rightarrow> d | None \<Rightarrow> []) v)
              secrets))"

text \<open>The outer loop: the loaders are called one after the other; an exception ends it.\<close>

type_synonym loader = "secrets \<Rightarrow> configuration \<Rightarrow> pyerror + secrets"

fun run_loaders :: "loader list \<Rightarrow> secrets \<Rightarrow> configuration \<Rightarrow> secrets \<Rightarrow> pyerror + secrets" where
  "run_loaders [] secrets_info configuration secrets = Inr secrets"
| "run_loaders (loader # rest) secrets_info configuration secrets =
     (case loader secrets_info configuration of
        Inl e \<Rightarrow> Inl e
      | Inr loaded \<Rightarrow> run_loaders rest secrets_info configuration (merge_loaded loaded secrets))"

definition loaders :: "world \<Rightarrow> loader list" where
  "loaders w =
     [\<lambda>secrets_info configuration. Inr (load_inline_secrets secrets_info configuration),
      load_secrets_from_env w,
      load_secrets_from_vault w]"

definition load_secrets :: "world \<Rightarrow> secrets \<Rightarrow> configuration \<Rightarrow> pyerror + secrets" where
  "load_secrets w secrets_info configuration =
     run_loaders (loaders w) secrets_info configuration []"

section \<open>Reading a secrets definition and a result\<close>

text \<open>A Python dictionary has no key twice: the targets, and the names within a target.\<close>

definition wf_secrets :: "secrets \<Rightarrow> bool" where
  "wf_secrets s = (distinct (map fst s) \<and> list_all (\<lambda>(t, d). distinct (map fst d)) s)"

text \<open>What a nested dictionary holds for a target and a secret name.\<close>

definition lookup2 :: "(string \<times> (string \<times> 'v) list) list \<Rightarrow> string \<times> string \<Rightarrow> 'v option" where
  "lookup2 s = (\<lambda>(t, k). case map_of s t of None \<Rightarrow> None | Some d \<Rightarrow> map_of d k)"

text \<open>
  The specification's test for what the inline resolver keeps: a value that is not a
  dictionary, or a dictionary whose \<^verbatim>\<open>type\<close> field is neither \<^verbatim>\<open>"env"\<close> nor \<^verbatim>\<open>"vault"\<close>.
  This definition follows the specification's words; \<open>inline_entry\<close> is the code.
\<close>

fun spec_inline_includes :: "pyval \<Rightarrow> bool" where
  "spec_inline_includes (PDict r) =
     (dict_get r ''type'' \<noteq> PStr ''env'' \<and> dict_get r ''type'' \<noteq> PStr ''vault'')"
| "spec_inline_includes v = True"

text \<open>A secrets definition all of whose values are literals in this sense.\<close>

definition only_literals :: "secrets \<Rightarrow> bool" where
  "only_literals s = list_all (\<lambda>(t, keys). list_all (\<lambda>(k, v). spec_inline_includes v) keys) s"

definition no_empty_target :: "secrets \<Rightarrow> bool" where
  "no_empty_target s = list_all (\<lambda>(t, keys). keys \<noteq> []) s"

section \<open>The loops in general\<close>

text \<open>
  The three loaders' loops differ only in what the body makes of one value: nothing,
  a value to store, or a way out of the loops. The loops over an arbitrary body are
  used to reason about all three at once; each loader is shown to be an instance.
\<close>

fun fill_keys :: "(pyval \<Rightarrow> 'e + pyval option) \<Rightarrow> pydict \<Rightarrow> pydict \<Rightarrow> 'e + pydict" where
  "fill_keys f [] acc = Inr acc"
| "fill_keys f ((key, v) # rest) acc =
     (case f v of
        Inl e \<Rightarrow> Inl e
      | Inr None \<Rightarrow> fill_keys f rest acc
      | Inr (Some x) \<Rightarrow> fill_keys f rest (AList.update key x acc))"

fun fill_targets :: "(pyval \<Rightarrow> 'e + pyval option) \<Rightarrow> secrets \<Rightarrow> secrets \<Rightarrow> 'e + secrets" where
  "fill_targets f [] secrets = Inr secrets"
| "fill_targets f ((target, keys) # rest) secrets =
     (case fill_keys f keys [] of
        Inl e \<Rightarrow> Inl e
      | Inr d \<Rightarrow> fill_targets f rest (close_target target d secrets))"

section \<open>A store, an environment and a secrets definition to run on\<close>

text \<open>
  A store that holds \<^verbatim>\<open>{"pw": "shhh"}\<close> at \<^verbatim>\<open>foo/bar\<close>, answers without data at
  \<^verbatim>\<open>nodata\<close>, refuses \<^verbatim>\<open>forbidden\<close> and has nothing elsewhere, under both KV versions; an AppRole endpoint that accepts one role secret; an environment
  with \<^verbatim>\<open>MYVAR=hello\<close>; and the same with \<^verbatim>\<open>hvac\<close> not installed.
\<close>

definition example_client :: "pyval \<Rightarrow> vault_client" where
  "example_client u = \<lparr>url = u, default_kv_version = ''2'', token = PNone\<rparr>"

definition example_read_v1 :: "vault_client \<Rightarrow> pyval \<Rightarrow> pyerror + pyval" where
  "example_read_v1 c path =
     (if path = PStr ''foo/bar'' then Inr (PDict [(''data'', PDict [(''pw'', PStr ''shhh'')])])
      else if path = PStr ''nodata'' then Inr (PDict [(''request_id'', PStr ''r1'')])
      else if path = PStr ''forbidden'' then Inl (StoreError ''permission denied'')
      else Inr PNone)"

definition example_read_v2 :: "vault_client \<Rightarrow> pyval \<Rightarrow> pyerror + pyval" where
  "example_read_v2 c path =
     (if path = PStr ''foo/bar''
      then Inr (PDict [(''data'', PDict [(''data'', PDict [(''pw'', PStr ''shhh'')])])])
      else if path = PStr ''nodata''
      then Inr (PDict [(''data'', PDict [(''metadata'', PDict [(''version'', PInt 1)])])])
      else if path = PStr ''forbidden'' then Inl (StoreError ''permission denied'')
      else Inr PNone)"

definition example_approle :: "vault_client \<Rightarrow> pyval \<Rightarrow> pyval \<Rightarrow> string + pyval" where
  "example_approle c role_id role_secret =
     (if role_secret = PStr ''right''
      then Inr (PDict [(''auth'', PDict [(''client_token'', PStr ''s.granted'')])])
      else Inl ''permission denied'')"

definition world_with_store :: world where
  "world_with_store =
     \<lparr>has_hvac = True, environ = [''MYVAR'' \<mapsto> ''hello''], hvac_Client = example_client,
      auth_approle = example_approle, read_secret = example_read_v1,
      read_secret_version = example_read_v2\<rparr>"

definition world_without_hvac :: world where
  "world_without_hvac = world_with_store\<lparr>has_hvac := False\<rparr>"

definition example_spec :: secrets where
  "example_spec =
     [(''t1'', [(''s1'', PStr ''v1'')]),
      (''t2'', [(''s2'', PDict [(''type'', PStr ''env''), (''key'', PStr ''MYVAR'')])]),
      (''t3'', [(''s3'', PDict [(''type'', PStr ''vault''), (''path'', PStr ''foo/bar''),
                               (''key'', PStr ''pw'')])])]"

definition spec_missing_path :: secrets where
  "spec_missing_path =
     [(''t4'', [(''s4'', PDict [(''type'', PStr ''vault''), (''path'', PStr ''missing'')])]),
      (''t1'', [(''s1'', PStr ''v1'')])]"

definition conf_token :: pydict where
  "conf_token = [(''vault_addr'', PStr ''http://vault:8200''), (''vault_token'', PStr ''s.static'')]"

definition conf_role :: "string \<Rightarrow> pydict" where
  "conf_role role_secret =
     [(''vault_addr'', PStr ''http://vault:8200''), (''vault_kv_version'', PStr ''1''),
      (''vault_role_id'', PStr ''chaos''), (''vault_role_secret'', PStr role_secret)]"

definition conf_both :: pydict where
  "conf_both =
     [(''vault_addr'', PStr ''http://vault:8200''), (''vault_token'', PStr ''s.static''),
      (''vault_role_id'', PStr ''chaos''), (''vault_role_secret'', PStr ''wrong'')]"

definition spec_store_example :: secrets where
  "spec_store_example =
     [(''t3'', [(''s3'', PDict [(''type'', PStr ''vault''), (''path'', PStr ''foo/bar''),
                               (''key'', PStr ''pw'')])])]"

definition spec_skipped_entries :: secrets where
  "spec_skipped_entries =
     [(''t'', [(''no_path'', PDict [(''type'', PStr ''vault'')]),
              (''no_payload'', PDict [(''type'', PStr ''vault''), (''path'', PStr ''missing'')]),
              (''no_key'', PDict [(''type'', PStr ''vault''), (''path'', PStr ''foo/bar''),
                                  (''key'', PStr ''login'')]),
              (''found'', PDict [(''type'', PStr ''vault''), (''path'', PStr ''foo/bar''),
                                 (''key'', PStr ''pw'')])])]"

definition spec_missing_variable :: secrets where
  "spec_missing_variable =
     [(''t1'', [(''s1'', PStr ''v1'')]),
      (''t2'', [(''s2'', PDict [(''type'', PStr ''env''), (''key'', PStr ''NOPE'')])]),
      (''t3'', [(''s3'', PDict [(''type'', PStr ''env'')])])]"

definition spec_env_without_key :: secrets where
  "spec_env_without_key =
     [(''t1'', [(''s1'', PStr ''v1'')]),
      (''t2'', [(''s2'', PDict [(''type'', PStr ''env''), (''key'', PStr ''MYVAR'')]),
               (''s3'', PDict [(''type'', PStr ''env'')])]),
      (''t3'', [(''s4'', PDict [(''type'', PStr ''env''), (''key'', PStr ''NOPE'')])])]"

definition spec_literals :: secrets where
  "spec_literals =
     [(''t1'', [(''s1'', PStr ''v1''), (''s2'', PInt 3)]),
      (''t2'', [(''s3'', PDict [(''type'', PStr ''probe''), (''name'', PStr ''x'')])])]"

definition spec_no_data :: secrets where
  "spec_no_data =
     [(''t5'', [(''s5'', PDict [(''type'', PStr ''vault''), (''path'', PStr ''nodata'')])])]"

definition spec_no_data_key :: secrets where
  "spec_no_data_key =
     [(''t'', [(''s'', PDict [(''type'', PStr ''vault''), (''path'', PStr ''nodata''),
                             (''key'', PStr ''pw'')]),
              (''found'', PDict [(''type'', PStr ''vault''), (''path'', PStr ''foo/bar''),
                                 (''key'', PStr ''pw'')])])]"

definition spec_forbidden :: secrets where
  "spec_forbidden =
     [(''t'', [(''s'', PDict [(''type'', PStr ''vault''), (''path'', PStr ''forbidden'')]),
              (''found'', PDict [(''type'', PStr ''vault''), (''path'', PStr ''foo/bar''),
                                 (''key'', PStr ''pw'')])])]"

section \<open>Association lists as dictionaries\<close>

lemmas eval_simps =
  load_secrets_def loaders_def load_inline_secrets_def load_secrets_from_env_def
  load_secrets_from_vault_def create_vault_client_def close_target_def dict_get_def
  dict_get_default_def dict_item_def dict_update_def vault_fetch_def read_payload_def
  payload_data_def select_key_def is_kv1_def missing_env_key_def approle_token_def
  world_with_store_def world_without_hvac_def example_client_def example_read_v1_def
  example_read_v2_def example_approle_def AList.delete_eq Let_def

lemma update_fresh: "k \<notin> fst ` set al \<Longrightarrow> AList.update k v al = al @ [(k, v)]"
  by (induction al) auto

lemma in_set_update: "p \<in> set (AList.update k v al) \<Longrightarrow> p = (k, v) \<or> p \<in> set al"
  by (induction al) (auto split: if_splits)

lemma map_of_close_target:
  "map_of (close_target t d s) = (if d = [] then (map_of s)(t := None) else (map_of s)(t \<mapsto> d))"
  by (simp add: close_target_def Let_def update_conv' delete_conv')

lemma distinct_close_target:
  "distinct (map fst s) \<Longrightarrow> distinct (map fst (close_target t d s))"
  by (simp add: close_target_def Let_def distinct_update distinct_delete)

lemma in_set_close_target:
  "(a, b) \<in> set (close_target t d s) \<Longrightarrow> (a = t \<and> b = d \<and> d \<noteq> []) \<or> (a, b) \<in> set s"
  by (auto simp: close_target_def Let_def AList.delete_eq dest!: in_set_update split: if_splits)

lemma close_target_fresh:
  assumes "t \<notin> fst ` set s"
  shows "close_target t d s = (if d = [] then s else s @ [(t, d)])"
proof -
  have "AList.update t d (AList.update t [] s) = AList.update t d s"
    by simp
  then have A: "AList.update t d (AList.update t [] s) = s @ [(t, d)]"
    by (simp only: update_fresh [OF assms])
  have B: "AList.delete t (s @ [(t, d')]) = s" for d'
    using AList.delete_id [OF assms] by (simp add: AList.delete_eq)
  show ?thesis
    unfolding close_target_def Let_def A by (simp add: B)
qed

lemma map_of_fold_update:
  "distinct (map fst other) \<Longrightarrow>
   map_of (fold (\<lambda>(k, v). AList.update k v) other d) = map_of d ++ map_of other"
proof (induction other arbitrary: d)
  case Nil
  then show ?case by simp
next
  case (Cons p other)
  obtain a b where p: "p = (a, b)" by (cases p)
  from Cons.prems p have fresh: "map_of other a = None"
    by (auto simp: map_of_eq_None_iff)
  have "map_of (fold (\<lambda>(k, v). AList.update k v) (p # other) d)
        = (map_of d)(a \<mapsto> b) ++ map_of other"
  proof -
    have "distinct (map fst other)" using Cons.prems by simp
    from Cons.IH [OF this, of "AList.update a b d"] show ?thesis
      by (simp only: p fold_simps prod.case update_conv')
  qed
  also have "\<dots> = map_of d ++ map_of (p # other)"
    using fresh p by (auto simp: fun_eq_iff map_add_def split: option.splits)
  finally show ?case .
qed

lemma map_of_dict_update:
  "distinct (map fst other) \<Longrightarrow> map_of (dict_update d other) = map_of d ++ map_of other"
  unfolding dict_update_def by (rule map_of_fold_update)

lemma fold_update_nonempty: "d \<noteq> [] \<Longrightarrow> fold (\<lambda>(k, v). AList.update k v) other d \<noteq> []"
proof (induction other arbitrary: d)
  case Nil
  then show ?case by simp
next
  case (Cons p other)
  obtain k v where p: "p = (k, v)" by (cases p)
  have "AList.update k v d \<noteq> []" by simp
  from Cons.IH [OF this] show ?case by (simp add: p)
qed

lemma dict_update_nonempty:
  assumes "other \<noteq> []"
  shows "dict_update d other \<noteq> []"
proof -
  from assms obtain k v rest where other: "other = (k, v) # rest"
    by (cases other) auto
  have "AList.update k v d \<noteq> []" by simp
  from fold_update_nonempty [OF this] show ?thesis
    by (simp add: dict_update_def other)
qed

lemma dict_update_append:
  "distinct (map fst other) \<Longrightarrow> fst ` set other \<inter> fst ` set d = {} \<Longrightarrow> dict_update d other = d @ other"
  unfolding dict_update_def
  by (induction other arbitrary: d) (auto simp: update_fresh)

lemma fill_keys_append:
  "fill_keys f (xs @ ys) acc =
     (case fill_keys f xs acc of Inl e \<Rightarrow> Inl e | Inr a \<Rightarrow> fill_keys f ys a)"
  by (induction xs arbitrary: acc) (auto split: sum.splits option.splits)

lemma fill_targets_append:
  "fill_targets f (xs @ ys) s =
     (case fill_targets f xs s of Inl e \<Rightarrow> Inl e | Inr a \<Rightarrow> fill_targets f ys a)"
  by (induction xs arbitrary: s) (auto split: sum.splits)

lemma fill_keys_distinct:
  "fill_keys f keys acc = Inr d \<Longrightarrow> distinct (map fst acc) \<Longrightarrow> distinct (map fst d)"
  by (induction keys arbitrary: acc) (auto simp: distinct_update split: sum.splits option.splits)

lemma fill_keys_lookup:
  "fill_keys f keys acc = Inr d \<Longrightarrow> distinct (map fst keys) \<Longrightarrow>
   map_of d k =
     (case map_of keys k of
        None \<Rightarrow> map_of acc k
      | Some v \<Rightarrow> (case f v of Inr (Some x) \<Rightarrow> Some x | _ \<Rightarrow> map_of acc k))"
proof (induction keys arbitrary: acc)
  case Nil
  then show ?case by simp
next
  case (Cons p keys)
  obtain a v where p: "p = (a, v)" by (cases p)
  from Cons.prems p have fresh: "map_of keys a = None"
    by (auto simp: map_of_eq_None_iff)
  show ?case
    using Cons.prems Cons.IH fresh p
    by (auto simp: update_conv' split: sum.splits option.splits)
qed

lemma fill_keys_skip:
  "f v = Inr None \<Longrightarrow> fill_keys f (xs @ (k, v) # ys) acc = fill_keys f (xs @ ys) acc"
  by (simp add: fill_keys_append split: sum.splits)

lemma fill_targets_skip:
  "f v = Inr None \<Longrightarrow>
   fill_targets f (pre @ (t, xs @ (k, v) # ys) # post) s = fill_targets f (pre @ (t, xs @ ys) # post) s"
  by (simp add: fill_targets_append fill_keys_skip split: sum.splits)

lemma fill_targets_distinct:
  "fill_targets f si s = Inr out \<Longrightarrow> distinct (map fst s) \<Longrightarrow> distinct (map fst out)"
  by (induction si arbitrary: s) (auto simp: distinct_close_target split: sum.splits)

lemma fill_targets_values:
  "fill_targets f si s = Inr out \<Longrightarrow> (\<And>t d. (t, d) \<in> set s \<Longrightarrow> P d) \<Longrightarrow>
   (\<And>keys d. fill_keys f keys [] = Inr d \<Longrightarrow> d \<noteq> [] \<Longrightarrow> P d) \<Longrightarrow>
   (t, d) \<in> set out \<Longrightarrow> P d"
proof (induction si arbitrary: s)
  case Nil
  then show ?case by simp
next
  case (Cons p si)
  obtain a keys where p: "p = (a, keys)" by (cases p)
  from Cons.prems(1) p obtain d0 where d0: "fill_keys f keys [] = Inr d0"
    and rest: "fill_targets f si (close_target a d0 s) = Inr out"
    by (auto split: sum.splits)
  have "P d'" if "(t', d') \<in> set (close_target a d0 s)" for t' d'
    using in_set_close_target [OF that] Cons.prems(2) Cons.prems(3) [OF d0] by auto
  from Cons.IH [OF rest this Cons.prems(3) Cons.prems(4)] show ?case by simp
qed

lemma fill_targets_lookup:
  "fill_targets f si s = Inr out \<Longrightarrow> distinct (map fst si) \<Longrightarrow>
   map_of out t =
     (case map_of si t of
        None \<Rightarrow> map_of s t
      | Some keys \<Rightarrow> (case fill_keys f keys [] of Inr d \<Rightarrow> if d = [] then None else Some d | Inl e \<Rightarrow> None))"
proof (induction si arbitrary: s)
  case Nil
  then show ?case by simp
next
  case (Cons p si)
  obtain a keys where p: "p = (a, keys)" by (cases p)
  from Cons.prems p have fresh: "map_of si a = None"
    by (auto simp: map_of_eq_None_iff)
  show ?case
    using Cons.prems Cons.IH fresh p
    by (auto simp: map_of_close_target split: sum.splits option.splits)
qed

lemma fill_targets_wf:
  assumes "fill_targets f si [] = Inr out"
  shows "wf_secrets out"
proof -
  have "distinct (map fst out)"
    using fill_targets_distinct [OF assms] by simp
  moreover have "distinct (map fst d)" if "(t, d) \<in> set out" for t d
  proof (rule fill_targets_values [where P = "\<lambda>d. distinct (map fst d)", OF assms _ _ that])
    show "\<And>keys d. fill_keys f keys [] = Inr d \<Longrightarrow> d \<noteq> [] \<Longrightarrow> distinct (map fst d)"
      using fill_keys_distinct by fastforce
  qed simp
  ultimately show ?thesis
    by (auto simp: wf_secrets_def list_all_iff)
qed

lemma fill_targets_nonempty:
  assumes "fill_targets f si [] = Inr out" and "(t, d) \<in> set out"
  shows "d \<noteq> []"
  by (rule fill_targets_values [where P = "\<lambda>d. d \<noteq> []", OF assms(1) _ _ assms(2)]) simp_all

lemma inline_keys_fill: "fill_keys (\<lambda>v. Inr (inline_entry v)) keys acc = Inr (inline_keys keys acc)"
  by (induction keys arbitrary: acc) (auto split: option.splits)

lemma inline_targets_fill:
  "fill_targets (\<lambda>v. Inr (inline_entry v)) si s = Inr (inline_targets si s)"
  by (induction si arbitrary: s) (auto simp: inline_keys_fill)

lemma env_keys_fill: "env_keys w keys acc = fill_keys (env_entry w) keys acc"
  by (induction keys arbitrary: acc) (auto split: sum.splits option.splits)

lemma env_targets_fill: "env_targets w si s = fill_targets (env_entry w) si s"
  by (induction si arbitrary: s) (auto simp: env_keys_fill split: sum.splits)

lemma vault_keys_fill: "vault_keys w c keys acc = fill_keys (vault_entry w c) keys acc"
  by (induction keys arbitrary: acc) (auto split: sum.splits option.splits)

lemma vault_targets_fill: "vault_targets w c si s = fill_targets (vault_entry w c) si s"
  by (induction si arbitrary: s) (auto simp: vault_keys_fill split: sum.splits)

lemma merge_loaded_Cons:
  "merge_loaded ((key, v) # rest) s =
     merge_loaded rest
       (AList.update key (dict_update (case map_of s key of Some d \<Rightarrow> d | None \<Rightarrow> []) v) s)"
proof (cases "key \<in> fst ` set s")
  case True
  then show ?thesis by simp
next
  case False
  then have "map_of s key = None"
    by (simp add: map_of_eq_None_iff)
  with False show ?thesis
    by (simp add: update_conv')
qed

lemma lookup2_merge_loaded:
  "wf_secrets r \<Longrightarrow> lookup2 (merge_loaded r s) = lookup2 s ++ lookup2 r"
proof (induction r arbitrary: s)
  case Nil
  then show ?case by (simp add: lookup2_def fun_eq_iff map_add_def)
next
  case (Cons p r)
  obtain t v where p: "p = (t, v)" by (cases p)
  from Cons.prems p have wf: "wf_secrets r" and dv: "distinct (map fst v)"
    and fresh: "map_of r t = None"
    by (auto simp: wf_secrets_def map_of_eq_None_iff)
  let ?s = "AList.update t (dict_update (case map_of s t of Some d \<Rightarrow> d | None \<Rightarrow> []) v) s"
  have "lookup2 (merge_loaded (p # r) s) = lookup2 ?s ++ lookup2 r"
    using Cons.IH [OF wf, of ?s] by (simp only: p merge_loaded_Cons)
  also have "\<dots> = lookup2 s ++ lookup2 (p # r)"
  proof (rule ext)
    fix x :: "string \<times> string"
    obtain t' k where x: "x = (t', k)" by (cases x)
    let ?cur = "case map_of s t of Some d \<Rightarrow> d | None \<Rightarrow> []"
    show "(lookup2 ?s ++ lookup2 r) x = (lookup2 s ++ lookup2 (p # r)) x"
    proof (cases "t' = t")
      case True
      have r0: "lookup2 r (t, k) = None"
        using fresh by (simp add: lookup2_def)
      have l: "lookup2 ?s (t, k) = (map_of ?cur ++ map_of v) k"
        by (simp add: lookup2_def update_conv' map_of_dict_update [OF dv])
      have rr: "lookup2 (p # r) (t, k) = map_of v k"
        by (simp add: lookup2_def p)
      have ss: "lookup2 s (t, k) = map_of ?cur k"
        by (simp add: lookup2_def split: option.splits)
      show ?thesis
        unfolding x True map_add_def r0 l rr ss by (simp split: option.splits)
    next
      case False
      have a: "lookup2 ?s (t', k) = lookup2 s (t', k)"
        using False by (simp add: lookup2_def update_conv')
      have b: "lookup2 (p # r) (t', k) = lookup2 r (t', k)"
        using False by (simp add: lookup2_def p)
      show ?thesis
        unfolding x map_add_def a b by (rule refl)
    qed
  qed
  finally show ?case .
qed

lemma merge_loaded_distinct:
  "distinct (map fst s) \<Longrightarrow> distinct (map fst (merge_loaded r s))"
proof (induction r arbitrary: s)
  case Nil
  then show ?case by simp
next
  case (Cons p r)
  obtain t v where p: "p = (t, v)" by (cases p)
  show ?case
    unfolding p merge_loaded_Cons using Cons.prems by (intro Cons.IH distinct_update)
qed

lemma merge_loaded_nonempty:
  "(\<And>t d. (t, d) \<in> set r \<Longrightarrow> d \<noteq> []) \<Longrightarrow> (\<And>t d. (t, d) \<in> set s \<Longrightarrow> d \<noteq> []) \<Longrightarrow>
   (t, d) \<in> set (merge_loaded r s) \<Longrightarrow> d \<noteq> []"
proof (induction r arbitrary: s)
  case Nil
  then show ?case by simp
next
  case (Cons p r)
  obtain a v where p: "p = (a, v)" by (cases p)
  let ?s = "AList.update a (dict_update (case map_of s a of Some d \<Rightarrow> d | None \<Rightarrow> []) v) s"
  have v: "v \<noteq> []" using Cons.prems(1) [of a v] p by simp
  have "d' \<noteq> []" if "(t', d') \<in> set ?s" for t' d'
  proof -
    from in_set_update [OF that]
    consider "d' = dict_update (case map_of s a of Some d \<Rightarrow> d | None \<Rightarrow> []) v"
      | "(t', d') \<in> set s" by auto
    then show ?thesis
      using Cons.prems(2) dict_update_nonempty [OF v] by cases auto
  qed
  moreover have "(t, d) \<in> set (merge_loaded r ?s)"
    using Cons.prems(3) by (simp only: p merge_loaded_Cons)
  ultimately show ?case
    using Cons.IH [of ?s] Cons.prems(1) by auto
qed

lemma merge_loaded_fresh:
  "wf_secrets r \<Longrightarrow> fst ` set r \<inter> fst ` set s = {} \<Longrightarrow> merge_loaded r s = s @ r"
proof (induction r arbitrary: s)
  case Nil
  then show ?case by simp
next
  case (Cons p r)
  obtain t v where p: "p = (t, v)" by (cases p)
  from Cons.prems p have wf: "wf_secrets r" and dv: "distinct (map fst v)"
    and tr: "t \<notin> fst ` set r" and ts: "t \<notin> fst ` set s"
    and disj: "fst ` set r \<inter> fst ` set s = {}"
    by (auto simp: wf_secrets_def)
  from ts have none: "map_of s t = None"
    by (simp add: map_of_eq_None_iff)
  have step: "AList.update t (dict_update (case map_of s t of Some d \<Rightarrow> d | None \<Rightarrow> []) v) s = s @ [(t, v)]"
    using dv by (simp add: none update_fresh [OF ts] dict_update_append)
  have "fst ` set r \<inter> fst ` set (s @ [(t, v)]) = {}"
    using disj tr by auto
  from Cons.IH [OF wf this] show ?case
    by (simp only: p merge_loaded_Cons step) simp
qed

lemma vault_entry_no_hvac:
  "\<not> has_hvac w \<Longrightarrow> vault_entry w c v = Inl Return_empty \<or> vault_entry w c v = Inr None"
  by (cases v) auto

lemma fill_keys_no_values:
  "(\<And>v. f v = Inl e0 \<or> f v = Inr None) \<Longrightarrow>
   fill_keys f keys acc = Inl e0 \<or> fill_keys f keys acc = Inr acc"
proof (induction keys arbitrary: acc)
  case Nil
  then show ?case by simp
next
  case (Cons p keys)
  obtain k v where p: "p = (k, v)" by (cases p)
  from Cons.prems [of v] show ?case
  proof
    assume "f v = Inl e0"
    then show ?thesis by (simp add: p)
  next
    assume "f v = Inr None"
    then show ?thesis using Cons.IH [OF Cons.prems] by (simp add: p)
  qed
qed

lemma close_target_empty [simp]: "close_target t [] [] = []"
  by (simp add: close_target_def AList.delete_eq)

lemma fill_targets_no_values:
  assumes "\<And>v. f v = Inl e0 \<or> f v = Inr None"
  shows "fill_targets f si [] = Inl e0 \<or> fill_targets f si [] = Inr []"
proof (induction si)
  case Nil
  then show ?case by simp
next
  case (Cons p si)
  obtain t keys where p: "p = (t, keys)" by (cases p)
  from fill_keys_no_values [of f e0 keys "[]"] assms
  have "fill_keys f keys [] = Inl e0 \<or> fill_keys f keys [] = Inr []" by blast
  then show ?case
    using Cons.IH by (auto simp: p)
qed

section \<open>The store resolver without its library\<close>

text \<open>
  C5: when the \<^verbatim>\<open>hvac\<close> library is missing, the store loader returns the empty
  dictionary for the whole call and does not raise, whatever the secrets definition
  holds (also with entries tagged \<^verbatim>\<open>vault\<close>); \<^verbatim>\<open>load_secrets\<close> then behaves as if only
  the inline and the environment loader had run, and returns their merged results.
\<close>

theorem missing_library_contributes_nothing:
  assumes "\<not> has_hvac w"
  shows "load_secrets_from_vault w secrets_info configuration = Inr [] \<and>
         load_secrets w secrets_info configuration =
           run_loaders (take 2 (loaders w)) secrets_info configuration [] \<and>
         (\<forall>loaded. load_secrets_from_env w secrets_info configuration = Inr loaded \<longrightarrow>
            load_secrets w secrets_info configuration =
              Inr (merge_loaded loaded
                     (merge_loaded (load_inline_secrets secrets_info configuration) [])))"
proof -
  have client: "create_vault_client w configuration = Inr None"
    using assms by (simp add: create_vault_client_def)
  from fill_targets_no_values [of "vault_entry w None" Return_empty secrets_info]
    vault_entry_no_hvac [OF assms]
  have "vault_targets w None secrets_info [] = Inl Return_empty \<or>
        vault_targets w None secrets_info [] = Inr []"
    by (simp add: vault_targets_fill)
  then have vault: "load_secrets_from_vault w secrets_info configuration = Inr []"
    by (auto simp: load_secrets_from_vault_def client)
  show ?thesis
    by (simp add: vault load_secrets_def loaders_def split: sum.splits)
qed

theorem missing_library_contributes_nothing_witness:
  "\<not> has_hvac world_without_hvac \<and>
   load_secrets_from_vault world_without_hvac example_spec None = Inr [] \<and>
   load_secrets world_without_hvac example_spec None =
     Inr [(''t1'', [(''s1'', PStr ''v1'')]), (''t2'', [(''s2'', PStr ''hello'')])]"
proof -
  have h: "\<not> has_hvac world_without_hvac"
    by (simp add: world_without_hvac_def world_with_store_def)
  have env: "load_secrets_from_env world_without_hvac example_spec None =
               Inr [(''t2'', [(''s2'', PStr ''hello'')])]"
    by (simp add: eval_simps example_spec_def)
  have inl: "load_inline_secrets example_spec None = [(''t1'', [(''s1'', PStr ''v1'')])]"
    by (simp add: eval_simps example_spec_def)
  note main = missing_library_contributes_nothing [OF h, of example_spec None]
  from main have vault: "load_secrets_from_vault world_without_hvac example_spec None = Inr []"
    by (rule conjunct1)
  from main env have "load_secrets world_without_hvac example_spec None =
      Inr (merge_loaded [(''t2'', [(''s2'', PStr ''hello'')])]
             (merge_loaded (load_inline_secrets example_spec None) []))"
    by blast
  then have "load_secrets world_without_hvac example_spec None =
     Inr [(''t1'', [(''s1'', PStr ''v1'')]), (''t2'', [(''s2'', PStr ''hello'')])]"
    by (simp add: inl dict_update_def)
  with h vault show ?thesis by simp
qed

section \<open>The results of the loaders\<close>

lemma wf_load_inline_secrets: "wf_secrets (load_inline_secrets si cfg)"
  unfolding load_inline_secrets_def
  by (rule fill_targets_wf [OF inline_targets_fill])

lemma wf_load_secrets_from_env:
  "load_secrets_from_env w si cfg = Inr loaded \<Longrightarrow> wf_secrets loaded"
  unfolding load_secrets_from_env_def env_targets_fill
  by (rule fill_targets_wf)

lemma load_secrets_from_vault_cases:
  assumes "load_secrets_from_vault w si cfg = Inr loaded"
  obtains "loaded = []"
  | client where "create_vault_client w cfg = Inr client"
      and "fill_targets (vault_entry w client) si [] = Inr loaded"
  using assms unfolding load_secrets_from_vault_def vault_targets_fill
  by (auto split: sum.splits vault_exit.splits)

lemma wf_load_secrets_from_vault:
  assumes "load_secrets_from_vault w si cfg = Inr loaded"
  shows "wf_secrets loaded"
  using assms
proof (cases rule: load_secrets_from_vault_cases)
  case 1
  then show ?thesis by (simp add: wf_secrets_def)
next
  case (2 client)
  then show ?thesis by (simp add: fill_targets_wf)
qed

lemma nonempty_load_inline_secrets: "(t, d) \<in> set (load_inline_secrets si cfg) \<Longrightarrow> d \<noteq> []"
  unfolding load_inline_secrets_def
  by (rule fill_targets_nonempty [OF inline_targets_fill])

lemma nonempty_load_secrets_from_env:
  "load_secrets_from_env w si cfg = Inr loaded \<Longrightarrow> (t, d) \<in> set loaded \<Longrightarrow> d \<noteq> []"
  unfolding load_secrets_from_env_def env_targets_fill
  by (rule fill_targets_nonempty)

lemma nonempty_load_secrets_from_vault:
  assumes "load_secrets_from_vault w si cfg = Inr loaded" and "(t, d) \<in> set loaded"
  shows "d \<noteq> []"
  using assms(1)
proof (cases rule: load_secrets_from_vault_cases)
  case 1
  with assms(2) show ?thesis by simp
next
  case (2 client)
  from fill_targets_nonempty [OF 2(2) assms(2)] show ?thesis .
qed

lemma load_secrets_unfold:
  "load_secrets w si cfg =
     (case load_secrets_from_env w si cfg of
        Inl e \<Rightarrow> Inl e
      | Inr from_env \<Rightarrow>
          (case load_secrets_from_vault w si cfg of
             Inl e \<Rightarrow> Inl e
           | Inr from_vault \<Rightarrow>
               Inr (merge_loaded from_vault
                      (merge_loaded from_env (merge_loaded (load_inline_secrets si cfg) [])))))"
  by (simp add: load_secrets_def loaders_def split: sum.splits)

lemma lookup2_Nil [simp]: "lookup2 [] = Map.empty"
  by (simp add: lookup2_def fun_eq_iff)

section \<open>Order and precedence of the loaders\<close>

text \<open>
  C1: \<^verbatim>\<open>load_secrets\<close> calls the inline, the environment and the store loader in this
  order (an exception of the environment loader is raised before the store loader is
  called) and merges each result into the accumulated secrets with a per-target
  dictionary update. For a target and a secret name the final value is the store
  loader's when it has one, else the environment loader's, else the inline loader's.
\<close>

theorem load_secrets_order_and_precedence:
  "load_secrets w secrets_info configuration =
     (case load_secrets_from_env w secrets_info configuration of
        Inl e \<Rightarrow> Inl e
      | Inr from_env \<Rightarrow>
          (case load_secrets_from_vault w secrets_info configuration of
             Inl e \<Rightarrow> Inl e
           | Inr from_vault \<Rightarrow>
               Inr (merge_loaded from_vault
                      (merge_loaded from_env
                         (merge_loaded (load_inline_secrets secrets_info configuration) []))))) \<and>
   (\<forall>from_env from_vault.
      load_secrets_from_env w secrets_info configuration = Inr from_env \<longrightarrow>
      load_secrets_from_vault w secrets_info configuration = Inr from_vault \<longrightarrow>
      (\<exists>out. load_secrets w secrets_info configuration = Inr out \<and>
         lookup2 out =
           lookup2 (load_inline_secrets secrets_info configuration)
             ++ lookup2 from_env ++ lookup2 from_vault))"
proof (intro conjI allI impI)
  show "load_secrets w secrets_info configuration =
     (case load_secrets_from_env w secrets_info configuration of
        Inl e \<Rightarrow> Inl e
      | Inr from_env \<Rightarrow>
          (case load_secrets_from_vault w secrets_info configuration of
             Inl e \<Rightarrow> Inl e
           | Inr from_vault \<Rightarrow>
               Inr (merge_loaded from_vault
                      (merge_loaded from_env
                         (merge_loaded (load_inline_secrets secrets_info configuration) [])))))"
    by (rule load_secrets_unfold)
next
  fix from_env from_vault
  assume env: "load_secrets_from_env w secrets_info configuration = Inr from_env"
    and vault: "load_secrets_from_vault w secrets_info configuration = Inr from_vault"
  let ?inline = "load_inline_secrets secrets_info configuration"
  let ?out = "merge_loaded from_vault (merge_loaded from_env (merge_loaded ?inline []))"
  have "load_secrets w secrets_info configuration = Inr ?out"
    by (simp add: load_secrets_unfold env vault)
  moreover have "lookup2 ?out = lookup2 ?inline ++ lookup2 from_env ++ lookup2 from_vault"
    by (simp add: lookup2_merge_loaded wf_load_inline_secrets
          wf_load_secrets_from_env [OF env] wf_load_secrets_from_vault [OF vault])
  ultimately show "\<exists>out. load_secrets w secrets_info configuration = Inr out \<and>
         lookup2 out = lookup2 ?inline ++ lookup2 from_env ++ lookup2 from_vault"
    by blast
qed

theorem load_secrets_order_and_precedence_witness:
  "load_secrets_from_env world_with_store example_spec (Some []) =
     Inr [(''t2'', [(''s2'', PStr ''hello'')])] \<and>
   load_secrets_from_vault world_with_store example_spec (Some []) =
     Inr [(''t3'', [(''s3'', PStr ''shhh'')])] \<and>
   (\<exists>out. load_secrets world_with_store example_spec (Some []) = Inr out \<and>
      lookup2 out =
        lookup2 (load_inline_secrets example_spec (Some []))
          ++ lookup2 [(''t2'', [(''s2'', PStr ''hello'')])]
          ++ lookup2 [(''t3'', [(''s3'', PStr ''shhh'')])])"
proof -
  have env: "load_secrets_from_env world_with_store example_spec (Some []) =
               Inr [(''t2'', [(''s2'', PStr ''hello'')])]"
    by (simp add: eval_simps example_spec_def)
  have vault: "load_secrets_from_vault world_with_store example_spec (Some []) =
                 Inr [(''t3'', [(''s3'', PStr ''shhh'')])]"
    by (simp add: eval_simps example_spec_def)
  from load_secrets_order_and_precedence [of world_with_store example_spec "Some []"] env vault
  show ?thesis by blast
qed

section \<open>No target with an empty dictionary\<close>

lemma load_secrets_no_empty_target:
  assumes "load_secrets w secrets_info configuration = Inr out"
  shows "(t, []) \<notin> set out \<and>
         (t \<in> fst ` set out \<longrightarrow> (\<exists>k x. lookup2 out (t, k) = Some x))"
proof -
  let ?inline = "load_inline_secrets secrets_info configuration"
  from assms obtain from_env from_vault
    where env: "load_secrets_from_env w secrets_info configuration = Inr from_env"
      and vault: "load_secrets_from_vault w secrets_info configuration = Inr from_vault"
      and out: "out = merge_loaded from_vault (merge_loaded from_env (merge_loaded ?inline []))"
    by (auto simp: load_secrets_unfold split: sum.splits)
  have ne: "d \<noteq> []" if "(t', d) \<in> set out" for t' d
  proof -
    have A: "d' \<noteq> []" if "(t'', d') \<in> set (merge_loaded ?inline [])" for t'' d'
    proof (rule merge_loaded_nonempty [OF _ _ that])
      show "\<And>t d. (t, d) \<in> set ?inline \<Longrightarrow> d \<noteq> []"
        by (rule nonempty_load_inline_secrets)
    qed simp
    have B: "d' \<noteq> []" if "(t'', d') \<in> set (merge_loaded from_env (merge_loaded ?inline []))"
      for t'' d'
    proof (rule merge_loaded_nonempty [OF _ _ that])
      show "\<And>t d. (t, d) \<in> set from_env \<Longrightarrow> d \<noteq> []"
        by (rule nonempty_load_secrets_from_env [OF env])
    qed (rule A)
    show ?thesis
    proof (rule merge_loaded_nonempty [OF _ _ that [unfolded out]])
      show "\<And>t d. (t, d) \<in> set from_vault \<Longrightarrow> d \<noteq> []"
        by (rule nonempty_load_secrets_from_vault [OF vault])
    qed (rule B)
  qed
  have dist: "distinct (map fst out)"
    unfolding out by (intro merge_loaded_distinct) simp
  have "\<exists>k x. lookup2 out (t, k) = Some x" if "t \<in> fst ` set out"
  proof -
    from that obtain d where d: "(t, d) \<in> set out" by force
    with dist have "map_of out t = Some d" by simp
    moreover from ne [OF d] obtain k x rest where "d = (k, x) # rest"
      by (cases d) auto
    ultimately have "lookup2 out (t, k) = Some x"
      by (simp add: lookup2_def)
    then show ?thesis by blast
  qed
  with ne show ?thesis by blast
qed

section \<open>The store client factory\<close>

lemma create_vault_client_Some:
  "has_hvac w \<Longrightarrow> create_vault_client w (Some conf) =
     (if ''vault_token'' \<in> fst ` set conf then
        Inr (Some ((built_client w conf)\<lparr>token := dict_get conf ''vault_token''\<rparr>))
      else if ''vault_role_id'' \<in> fst ` set conf \<and> ''vault_role_secret'' \<in> fst ` set conf then
        (case auth_approle w (built_client w conf) (dict_get conf ''vault_role_id'')
                (dict_get conf ''vault_role_secret'') of
           Inl ve \<Rightarrow>
             Inl (InvalidExperiment (''Failed to connect to Vault with the AppRole: '' @ ve))
         | Inr app_role \<Rightarrow>
             (case approle_token app_role of
                Inl e \<Rightarrow> Inl e
              | Inr tok \<Rightarrow> Inr (Some ((built_client w conf)\<lparr>token := tok\<rparr>))))
      else Inr (Some (built_client w conf)))"
  by (simp add: create_vault_client_def built_client_def Let_def split: sum.splits)




text \<open>
  C9: a configuration with a token and with both role fields gets the token: the
  client is the built one with the configured token, and the exchange is not made
  (whatever \<^verbatim>\<open>auth_approle\<close> would do, also raise, the result is the same).
\<close>

theorem token_before_role_exchange:
  assumes "has_hvac w"
    and "''vault_token'' \<in> fst ` set conf"
    and "''vault_role_id'' \<in> fst ` set conf" and "''vault_role_secret'' \<in> fst ` set conf"
  shows "create_vault_client w (Some conf) =
           Inr (Some ((built_client w conf)\<lparr>token := dict_get conf ''vault_token''\<rparr>)) \<and>
         (\<forall>exchange. create_vault_client (w\<lparr>auth_approle := exchange\<rparr>) (Some conf) =
            create_vault_client w (Some conf))"
  using assms by (simp add: create_vault_client_Some built_client_def)

theorem token_before_role_exchange_witness:
  "has_hvac world_with_store \<and>
   ''vault_token'' \<in> fst ` set conf_both \<and>
   ''vault_role_id'' \<in> fst ` set conf_both \<and> ''vault_role_secret'' \<in> fst ` set conf_both \<and>
   auth_approle world_with_store (built_client world_with_store conf_both)
     (dict_get conf_both ''vault_role_id'') (dict_get conf_both ''vault_role_secret'') =
     Inl ''permission denied'' \<and>
   create_vault_client world_with_store (Some conf_both) =
     Inr (Some \<lparr>url = PStr ''http://vault:8200'', default_kv_version = ''2'',
                token = PStr ''s.static''\<rparr>)"
proof -
  have h: "has_hvac world_with_store" "''vault_token'' \<in> fst ` set conf_both"
    "''vault_role_id'' \<in> fst ` set conf_both" "''vault_role_secret'' \<in> fst ` set conf_both"
    by (simp_all add: world_with_store_def conf_both_def)
  have denied: "auth_approle world_with_store (built_client world_with_store conf_both)
     (dict_get conf_both ''vault_role_id'') (dict_get conf_both ''vault_role_secret'') =
     Inl ''permission denied''"
    by (simp add: conf_both_def eval_simps)
  from token_before_role_exchange [OF h]
  have "create_vault_client world_with_store (Some conf_both) =
     Inr (Some \<lparr>url = PStr ''http://vault:8200'', default_kv_version = ''2'',
                token = PStr ''s.static''\<rparr>)"
    by (simp add: conf_both_def built_client_def eval_simps)
  with h denied show ?thesis by simp
qed

section \<open>The store resolver\<close>

lemma vault_entry_tagged:
  "has_hvac w \<Longrightarrow> dict_get r ''type'' = PStr ''vault'' \<Longrightarrow>
   vault_entry w client (PDict r) =
     (case vault_fetch w client r of Inl e \<Rightarrow> Inl (Raised e) | Inr x \<Rightarrow> Inr x)"
  by simp

lemma vault_fetch_payload:
  "dict_get r ''path'' \<noteq> PNone \<Longrightarrow> read_payload w c (dict_get r ''path'') = Inr payload \<Longrightarrow>
   truthy payload \<Longrightarrow> payload_data c payload = Inr data \<Longrightarrow>
   vault_fetch w (Some c) r = select_key r data"
  by (simp add: vault_fetch_def Let_def)

text \<open>
  C3: for an entry tagged \<^verbatim>\<open>vault\<close> with a path, the request and the unwrapping follow
  the client's KV version. Under version \<^verbatim>\<open>"1"\<close> the path is read with \<^verbatim>\<open>read_secret\<close>
  and the data is the payload's \<^verbatim>\<open>data\<close> field; under any other version, so under the
  default \<^verbatim>\<open>"2"\<close> of a configuration without \<^verbatim>\<open>vault_kv_version\<close>, it is read with
  \<^verbatim>\<open>read_secret_version\<close> and the data is the \<^verbatim>\<open>data\<close> field of the payload's \<^verbatim>\<open>data\<close>
  field. The entry then resolves to the data, or to its named key.
\<close>

theorem store_read_follows_kv_version:
  assumes "has_hvac w" and "dict_get r ''type'' = PStr ''vault''"
    and "dict_get r ''path'' = path" and "path \<noteq> PNone"
  shows "(default_kv_version c = ''1'' \<longrightarrow>
            (\<forall>p data. read_secret w c path = Inr (PDict p) \<longrightarrow> p \<noteq> [] \<longrightarrow>
               map_of p ''data'' = Some data \<longrightarrow>
               vault_entry w (Some c) (PDict r) =
                 (case select_key r data of Inl e \<Rightarrow> Inl (Raised e) | Inr x \<Rightarrow> Inr x))) \<and>
         (default_kv_version c \<noteq> ''1'' \<longrightarrow>
            (\<forall>p q data. read_secret_version w c path = Inr (PDict p) \<longrightarrow>
               map_of p ''data'' = Some (PDict q) \<longrightarrow> map_of q ''data'' = Some data \<longrightarrow>
               vault_entry w (Some c) (PDict r) =
                 (case select_key r data of Inl e \<Rightarrow> Inl (Raised e) | Inr x \<Rightarrow> Inr x))) \<and>
         (\<forall>conf. ''vault_kv_version'' \<notin> fst ` set conf \<longrightarrow>
            create_vault_client w (Some conf) = Inr (Some c) \<longrightarrow> default_kv_version c = ''2'')"
proof (intro conjI impI allI)
  fix p data
  assume v: "default_kv_version c = ''1''" and rd: "read_secret w c path = Inr (PDict p)"
    and ne: "p \<noteq> []" and d: "map_of p ''data'' = Some data"
  have "vault_fetch w (Some c) r = select_key r data"
  proof (rule vault_fetch_payload)
    show "read_payload w c (dict_get r ''path'') = Inr (PDict p)"
      using v rd assms(3) by (simp add: read_payload_def is_kv1_def)
    show "payload_data c (PDict p) = Inr data"
      using v d by (simp add: payload_data_def is_kv1_def dict_get_default_def)
  qed (use assms ne in simp_all)
  then show "vault_entry w (Some c) (PDict r) =
      (case select_key r data of Inl e \<Rightarrow> Inl (Raised e) | Inr x \<Rightarrow> Inr x)"
    using assms by simp
next
  fix p q data
  assume v: "default_kv_version c \<noteq> ''1''" and rd: "read_secret_version w c path = Inr (PDict p)"
    and d: "map_of p ''data'' = Some (PDict q)" and dd: "map_of q ''data'' = Some data"
  from d have ne: "p \<noteq> []" by auto
  have "vault_fetch w (Some c) r = select_key r data"
  proof (rule vault_fetch_payload)
    show "read_payload w c (dict_get r ''path'') = Inr (PDict p)"
      using v rd assms(3) by (simp add: read_payload_def is_kv1_def)
    show "payload_data c (PDict p) = Inr data"
      using v d dd by (simp add: payload_data_def is_kv1_def dict_get_default_def)
  qed (use assms ne in simp_all)
  then show "vault_entry w (Some c) (PDict r) =
      (case select_key r data of Inl e \<Rightarrow> Inl (Raised e) | Inr x \<Rightarrow> Inr x)"
    using assms by simp
next
  fix conf
  assume nov: "''vault_kv_version'' \<notin> fst ` set conf"
    and cl: "create_vault_client w (Some conf) = Inr (Some c)"
  from nov have "map_of conf ''vault_kv_version'' = None"
    by (simp add: map_of_eq_None_iff)
  then have "default_kv_version (built_client w conf) = ''2''"
    by (simp add: built_client_def dict_get_default_def)
  with cl assms(1) show "default_kv_version c = ''2''"
    by (auto simp: create_vault_client_Some split: if_splits sum.splits)
qed

theorem store_read_follows_kv_version_witness:
  "load_secrets world_with_store spec_store_example (Some []) =
     Inr [(''t3'', [(''s3'', PStr ''shhh'')])] \<and>
   create_vault_client world_with_store (Some []) = Inr (Some (example_client PNone)) \<and>
   default_kv_version (example_client PNone) = ''2'' \<and>
   vault_entry world_with_store (Some (example_client PNone))
     (PDict [(''type'', PStr ''vault''), (''path'', PStr ''foo/bar''), (''key'', PStr ''pw'')]) =
     Inr (Some (PStr ''shhh'')) \<and>
   vault_entry world_with_store (Some ((example_client PNone)\<lparr>default_kv_version := ''1''\<rparr>))
     (PDict [(''type'', PStr ''vault''), (''path'', PStr ''foo/bar''), (''key'', PStr ''pw'')]) =
     Inr (Some (PStr ''shhh''))"
proof -
  let ?r = "[(''type'', PStr ''vault''), (''path'', PStr ''foo/bar''), (''key'', PStr ''pw'')]"
  let ?c = "example_client PNone"
  have h: "has_hvac world_with_store" "dict_get ?r ''type'' = PStr ''vault''"
    "dict_get ?r ''path'' = PStr ''foo/bar''" "PStr ''foo/bar'' \<noteq> PNone"
    by (simp_all add: eval_simps)
  have cl: "create_vault_client world_with_store (Some []) = Inr (Some ?c)"
    by (simp add: eval_simps)
  have nov: "''vault_kv_version'' \<notin> fst ` set ([] :: pydict)"
    by simp
  note main2 = store_read_follows_kv_version [OF h, of ?c]
  note main1 = store_read_follows_kv_version [OF h, of "?c\<lparr>default_kv_version := ''1''\<rparr>"]
  have v2: "default_kv_version ?c = ''2''"
    using main2 nov cl by blast
  have e2: "vault_entry world_with_store (Some ?c) (PDict ?r) = Inr (Some (PStr ''shhh''))"
  proof -
    have rd: "read_secret_version world_with_store ?c (PStr ''foo/bar'') =
            Inr (PDict [(''data'', PDict [(''data'', PDict [(''pw'', PStr ''shhh'')])])])"
      by (simp add: eval_simps)
    have d: "map_of [(''data'', PDict [(''data'', PDict [(''pw'', PStr ''shhh'')])])] ''data'' =
               Some (PDict [(''data'', PDict [(''pw'', PStr ''shhh'')])])"
      and dd: "map_of [(''data'', PDict [(''pw'', PStr ''shhh'')])] ''data'' =
               Some (PDict [(''pw'', PStr ''shhh'')])"
      by simp_all
    have v: "default_kv_version ?c \<noteq> ''1''"
      by (simp add: eval_simps)
    have "vault_entry world_with_store (Some ?c) (PDict ?r) =
        (case select_key ?r (PDict [(''pw'', PStr ''shhh'')]) of
           Inl e \<Rightarrow> Inl (Raised e) | Inr x \<Rightarrow> Inr x)"
      using main2 v rd d dd by blast
    also have "\<dots> = Inr (Some (PStr ''shhh''))"
      by (simp add: eval_simps)
    finally show ?thesis .
  qed
  have e1: "vault_entry world_with_store (Some (?c\<lparr>default_kv_version := ''1''\<rparr>)) (PDict ?r) =
              Inr (Some (PStr ''shhh''))"
  proof -
    have rd: "read_secret world_with_store (?c\<lparr>default_kv_version := ''1''\<rparr>) (PStr ''foo/bar'') =
            Inr (PDict [(''data'', PDict [(''pw'', PStr ''shhh'')])])"
      by (simp add: eval_simps)
    have d: "map_of [(''data'', PDict [(''pw'', PStr ''shhh'')])] ''data'' =
               Some (PDict [(''pw'', PStr ''shhh'')])"
      and ne: "[(''data'', PDict [(''pw'', PStr ''shhh'')])] \<noteq> []"
      by simp_all
    have v: "default_kv_version (?c\<lparr>default_kv_version := ''1''\<rparr>) = ''1''"
      by simp
    have "vault_entry world_with_store (Some (?c\<lparr>default_kv_version := ''1''\<rparr>)) (PDict ?r) =
        (case select_key ?r (PDict [(''pw'', PStr ''shhh'')]) of
           Inl e \<Rightarrow> Inl (Raised e) | Inr x \<Rightarrow> Inr x)"
      using main1 v rd d ne by blast
    also have "\<dots> = Inr (Some (PStr ''shhh''))"
      by (simp add: eval_simps)
    finally show ?thesis .
  qed
  have "load_secrets world_with_store spec_store_example (Some []) =
     Inr [(''t3'', [(''s3'', PStr ''shhh'')])]"
    by (simp add: eval_simps spec_store_example_def)
  with cl v2 e2 e1 show ?thesis by simp
qed

lemma fill_keys_not_exit:
  "(\<And>v. f v \<noteq> Inl e0) \<Longrightarrow> fill_keys f keys acc \<noteq> Inl e0"
  by (induction keys arbitrary: acc) (auto split: sum.splits option.splits)

lemma fill_targets_not_exit:
  "(\<And>v. f v \<noteq> Inl e0) \<Longrightarrow> fill_targets f si s \<noteq> Inl e0"
proof (induction si arbitrary: s)
  case Nil
  then show ?case by simp
next
  case (Cons p si)
  obtain t keys where p: "p = (t, keys)" by (cases p)
  from fill_keys_not_exit [of f e0 keys "[]"] Cons.prems
  have "fill_keys f keys [] \<noteq> Inl e0" by blast
  with Cons.IH [OF Cons.prems] show ?case
    by (auto simp: p split: sum.splits)
qed

lemma vault_entry_with_hvac: "has_hvac w \<Longrightarrow> vault_entry w client v \<noteq> Inl Return_empty"
  by (cases v) (auto split: sum.splits)

lemma create_vault_client_has_hvac:
  "create_vault_client w configuration = Inr (Some c) \<Longrightarrow> has_hvac w"
  by (cases "has_hvac w") (simp_all add: create_vault_client_def)

text \<open>
  C6, as amended: with a client at hand, an entry tagged \<^verbatim>\<open>vault\<close> that has no path, or whose read
  returns a false payload, or that names a key the payload's data (a dictionary) does
  not have, is passed over without an exception: the loader's result is the one it has
  for the secrets definition without that entry, so all other entries resolve as they
  would. With the library present the loader never leaves through \<^verbatim>\<open>return {}\<close>.
\<close>

theorem store_entry_skipped:
  assumes "create_vault_client w configuration = Inr (Some c)"
    and "dict_get r ''type'' = PStr ''vault''"
    and "dict_get r ''path'' = PNone \<or>
         (\<exists>payload. read_payload w c (dict_get r ''path'') = Inr payload \<and> \<not> truthy payload) \<or>
         (\<exists>payload d name.
            read_payload w c (dict_get r ''path'') = Inr payload \<and> truthy payload \<and>
            payload_data c payload = Inr (PDict d) \<and>
            map_of r ''key'' = Some (PStr name) \<and> name \<notin> fst ` set d)"
  shows "vault_entry w (Some c) (PDict r) = Inr None \<and>
         load_secrets_from_vault w (pre @ (t, kpre @ (k, PDict r) # kpost) # post) configuration =
           load_secrets_from_vault w (pre @ (t, kpre @ kpost) # post) configuration \<and>
         (\<forall>secrets_info. vault_targets w (Some c) secrets_info [] \<noteq> Inl Return_empty)"
proof -
  have hvac: "has_hvac w"
    using assms(1) by (rule create_vault_client_has_hvac)
  have "vault_fetch w (Some c) r = Inr None"
  proof (cases "dict_get r ''path'' = PNone")
    case True
    then show ?thesis by (simp add: vault_fetch_def)
  next
    case False
    with assms(3) consider
      payload where "read_payload w c (dict_get r ''path'') = Inr payload" "\<not> truthy payload"
      | payload d name where "read_payload w c (dict_get r ''path'') = Inr payload"
          "truthy payload" "payload_data c payload = Inr (PDict d)"
          "map_of r ''key'' = Some (PStr name)" "name \<notin> fst ` set d"
      by blast
    then show ?thesis
    proof cases
      case 1
      with False show ?thesis by (simp add: vault_fetch_def)
    next
      case 2
      then have "select_key r (PDict d) = Inr None"
        by (simp add: select_key_def)
      with vault_fetch_payload [OF False 2(1) 2(2) 2(3)] show ?thesis by simp
    qed
  qed
  then have skip: "vault_entry w (Some c) (PDict r) = Inr None"
    using hvac assms(2) by simp
  have "fill_targets (vault_entry w (Some c)) (pre @ (t, kpre @ (k, PDict r) # kpost) # post) [] =
        fill_targets (vault_entry w (Some c)) (pre @ (t, kpre @ kpost) # post) []"
    using skip by (rule fill_targets_skip)
  then have same: "load_secrets_from_vault w (pre @ (t, kpre @ (k, PDict r) # kpost) # post) configuration =
           load_secrets_from_vault w (pre @ (t, kpre @ kpost) # post) configuration"
    by (simp add: load_secrets_from_vault_def assms(1) vault_targets_fill)
  have "vault_targets w (Some c) secrets_info [] \<noteq> Inl Return_empty" for secrets_info
    unfolding vault_targets_fill
    by (rule fill_targets_not_exit) (rule vault_entry_with_hvac [OF hvac])
  with skip same show ?thesis by blast
qed

theorem store_entry_skipped_witness:
  "create_vault_client world_with_store (Some []) = Inr (Some (example_client PNone)) \<and>
   vault_entry world_with_store (Some (example_client PNone))
     (PDict [(''type'', PStr ''vault'')]) = Inr None \<and>
   vault_entry world_with_store (Some (example_client PNone))
     (PDict [(''type'', PStr ''vault''), (''path'', PStr ''missing'')]) = Inr None \<and>
   vault_entry world_with_store (Some (example_client PNone))
     (PDict [(''type'', PStr ''vault''), (''path'', PStr ''foo/bar''), (''key'', PStr ''login'')]) =
     Inr None \<and>
   load_secrets_from_vault world_with_store spec_skipped_entries (Some []) =
     Inr [(''t'', [(''found'', PStr ''shhh'')])]"
proof -
  let ?c = "example_client PNone"
  let ?r1 = "[(''type'', PStr ''vault'')]"
  let ?r2 = "[(''type'', PStr ''vault''), (''path'', PStr ''missing'')]"
  let ?r3 = "[(''type'', PStr ''vault''), (''path'', PStr ''foo/bar''), (''key'', PStr ''login'')]"
  have cl: "create_vault_client world_with_store (Some []) = Inr (Some ?c)"
    by (simp add: eval_simps)
  have t1: "dict_get ?r1 ''type'' = PStr ''vault''" and p1: "dict_get ?r1 ''path'' = PNone"
    by (simp_all add: eval_simps)
  have t2: "dict_get ?r2 ''type'' = PStr ''vault''"
    and p2: "read_payload world_with_store ?c (dict_get ?r2 ''path'') = Inr PNone \<and> \<not> truthy PNone"
    by (simp_all add: eval_simps)
  have t3: "dict_get ?r3 ''type'' = PStr ''vault''"
    and p3: "read_payload world_with_store ?c (dict_get ?r3 ''path'') =
               Inr (PDict [(''data'', PDict [(''data'', PDict [(''pw'', PStr ''shhh'')])])]) \<and>
             truthy (PDict [(''data'', PDict [(''data'', PDict [(''pw'', PStr ''shhh'')])])]) \<and>
             payload_data ?c (PDict [(''data'', PDict [(''data'', PDict [(''pw'', PStr ''shhh'')])])]) =
               Inr (PDict [(''pw'', PStr ''shhh'')]) \<and>
             map_of ?r3 ''key'' = Some (PStr ''login'') \<and>
             ''login'' \<notin> fst ` set [(''pw'', PStr ''shhh'')]"
    by (simp_all add: eval_simps)
  have e1: "vault_entry world_with_store (Some ?c) (PDict ?r1) = Inr None"
    using store_entry_skipped [OF cl t1] p1 by blast
  have e2: "vault_entry world_with_store (Some ?c) (PDict ?r2) = Inr None"
    using store_entry_skipped [OF cl t2] p2 by blast
  have e3: "vault_entry world_with_store (Some ?c) (PDict ?r3) = Inr None"
    using store_entry_skipped [OF cl t3] p3 by blast
  have "load_secrets_from_vault world_with_store spec_skipped_entries (Some []) =
     Inr [(''t'', [(''found'', PStr ''shhh'')])]"
    by (simp add: eval_simps spec_skipped_entries_def)
  with cl e1 e2 e3 show ?thesis by simp
qed

theorem store_entry_not_skipped_counterexample:
  "read_payload world_with_store (example_client PNone) (PStr ''nodata'') =
     Inr (PDict [(''data'', PDict [(''metadata'', PDict [(''version'', PInt 1)])])]) \<and>
   load_secrets_from_vault world_with_store spec_no_data_key (Some []) = Inl TypeError \<and>
   load_secrets world_with_store spec_no_data_key (Some []) = Inl TypeError \<and>
   load_secrets_from_vault world_with_store spec_forbidden (Some []) =
     Inl (StoreError ''permission denied'') \<and>
   load_secrets_from_vault world_with_store spec_skipped_entries (Some (conf_role ''wrong'')) =
     Inl (InvalidExperiment ''Failed to connect to Vault with the AppRole: permission denied'')"
  by (simp add: eval_simps spec_no_data_key_def spec_forbidden_def spec_skipped_entries_def
        conf_role_def)

section \<open>The environment resolver\<close>

lemma fill_targets_inner:
  "fill_targets f si s = Inr out \<Longrightarrow> (t, keys) \<in> set si \<Longrightarrow> \<exists>d. fill_keys f keys [] = Inr d"
  by (induction si arbitrary: s) (auto split: sum.splits)

lemma lookup2_fill_targets:
  assumes "fill_targets f si [] = Inr out" and "wf_secrets si"
  shows "lookup2 out (t, k) =
           (case lookup2 si (t, k) of
              None \<Rightarrow> None
            | Some v \<Rightarrow> (case f v of Inr (Some x) \<Rightarrow> Some x | _ \<Rightarrow> None))"
proof (cases "map_of si t")
  case None
  with fill_targets_lookup [OF assms(1), of t] assms(2) show ?thesis
    by (simp add: lookup2_def wf_secrets_def)
next
  case (Some keys)
  then have mem: "(t, keys) \<in> set si"
    by (rule map_of_SomeD)
  with assms(2) have dk: "distinct (map fst keys)"
    by (auto simp: wf_secrets_def list_all_iff)
  from fill_targets_inner [OF assms(1) mem] obtain d where d: "fill_keys f keys [] = Inr d"
    by blast
  from fill_targets_lookup [OF assms(1), of t] assms(2) Some d
  have "map_of out t = (if d = [] then None else Some d)"
    by (simp add: wf_secrets_def)
  then have "lookup2 out (t, k) = map_of d k"
    by (simp add: lookup2_def)
  also have "\<dots> = (case map_of keys k of
                      None \<Rightarrow> None
                    | Some v \<Rightarrow> (case f v of Inr (Some x) \<Rightarrow> Some x | _ \<Rightarrow> None))"
    using fill_keys_lookup [OF d dk, of k] by (simp split: option.splits sum.splits)
  finally show ?thesis
    by (simp add: lookup2_def Some)
qed

lemma lookup2_fill_targets_at:
  assumes "fill_targets f si [] = Inr out" and "wf_secrets si"
    and "lookup2 si (t, k) = Some v" and "f v = Inr y"
  shows "lookup2 out (t, k) = y"
  unfolding lookup2_fill_targets [OF assms(1,2), of t k] assms(3)
  by (simp add: assms(4) split: option.splits)

lemma fill_targets_fails_at:
  assumes "f v = Inl e" and "fill_targets f pre s = Inr s'" and "fill_keys f kpre [] = Inr d"
  shows "fill_targets f (pre @ (t, kpre @ (k, v) # kpost) # post) s = Inl e"
  using assms by (simp add: fill_targets_append fill_keys_append)

lemma fill_targets_fails:
  assumes "f v = Inl e"
  shows "\<exists>e'. fill_targets f (pre @ (t, kpre @ (k, v) # kpost) # post) s = Inl e'"
  using assms by (auto simp: fill_targets_append fill_keys_append split: sum.splits)

lemma load_secrets_env_fails:
  "load_secrets_from_env w si cfg = Inl e \<Longrightarrow> load_secrets w si cfg = Inl e"
  by (simp add: load_secrets_unfold)

lemma lookup2_split:
  assumes "wf_secrets (pre @ (t, kpre @ (k, v) # kpost) # post)"
  shows "lookup2 (pre @ (t, kpre @ (k, v) # kpost) # post) (t, k) = Some v"
proof -
  from assms have d1: "distinct (map fst (pre @ (t, kpre @ (k, v) # kpost) # post))"
    and d2: "distinct (map fst (kpre @ (k, v) # kpost))"
    by (auto simp: wf_secrets_def)
  have "map_of (pre @ (t, kpre @ (k, v) # kpost) # post) t = Some (kpre @ (k, v) # kpost)"
    by (rule map_of_is_SomeI [OF d1]) simp
  moreover have "map_of (kpre @ (k, v) # kpost) k = Some v"
    by (rule map_of_is_SomeI [OF d2]) simp
  ultimately show ?thesis
    by (simp add: lookup2_def)
qed

lemma lookup2_load_secrets:
  assumes "load_secrets_from_env w si cfg = Inr from_env"
    and "load_secrets_from_vault w si cfg = Inr from_vault"
    and "load_secrets w si cfg = Inr out"
  shows "lookup2 out = lookup2 (load_inline_secrets si cfg) ++ lookup2 from_env ++ lookup2 from_vault"
proof -
  from assms have "out = merge_loaded from_vault
      (merge_loaded from_env (merge_loaded (load_inline_secrets si cfg) []))"
    by (simp add: load_secrets_unfold)
  then show ?thesis
    by (simp add: lookup2_merge_loaded wf_load_inline_secrets
          wf_load_secrets_from_env [OF assms(1)] wf_load_secrets_from_vault [OF assms(2)])
qed

text \<open>
  C2, as amended: for an entry tagged \<^verbatim>\<open>env\<close> that names a variable of the environment, every
  normal result of \<^verbatim>\<open>load_secrets\<close> has the variable's value for that entry. When the
  variable is not in the environment, \<^verbatim>\<open>load_secrets\<close> returns no result: it raises,
  and when the environment loader reaches the entry (the targets and the entries
  before it resolve) what it raises is \<^verbatim>\<open>InvalidExperiment\<close> with a message that ends in
  the variable's name.
\<close>

theorem env_reference_resolved_or_fatal:
  assumes "secrets_info = pre @ (t, kpre @ (k, PDict r) # kpost) # post"
    and "dict_get r ''type'' = PStr ''env''"
    and "map_of r ''key'' = Some (PStr name)"
  shows "(\<forall>x out. environ w name = Some x \<longrightarrow> wf_secrets secrets_info \<longrightarrow>
            load_secrets w secrets_info configuration = Inr out \<longrightarrow>
            lookup2 out (t, k) = Some (PStr x)) \<and>
         (environ w name = None \<longrightarrow>
            (\<exists>e. load_secrets w secrets_info configuration = Inl e) \<and>
            (\<forall>s d. env_targets w pre [] = Inr s \<longrightarrow> env_keys w kpre [] = Inr d \<longrightarrow>
               load_secrets w secrets_info configuration =
                 Inl (InvalidExperiment
                        (''Secrets make reference to an environment key that does not exist: ''
                         @ name))))"
proof (intro conjI allI impI)
  fix x out
  assume x: "environ w name = Some x" and wf: "wf_secrets secrets_info"
    and out: "load_secrets w secrets_info configuration = Inr out"
  let ?inline = "load_inline_secrets secrets_info configuration"
  from out obtain from_env from_vault
    where env: "load_secrets_from_env w secrets_info configuration = Inr from_env"
      and vault: "load_secrets_from_vault w secrets_info configuration = Inr from_vault"
    by (auto simp: load_secrets_unfold split: sum.splits)
  from lookup2_load_secrets [OF env vault out]
  have look: "lookup2 out = lookup2 ?inline ++ lookup2 from_env ++ lookup2 from_vault" .
  have ref: "lookup2 secrets_info (t, k) = Some (PDict r)"
    using wf unfolding assms(1) by (rule lookup2_split)
  have entry: "env_entry w (PDict r) = Inr (Some (PStr x))"
    using assms(2,3) x by (simp add: dict_item_def)
  have "lookup2 from_env (t, k) = Some (PStr x)"
    using env [unfolded load_secrets_from_env_def env_targets_fill] wf ref entry
    by (rule lookup2_fill_targets_at)
  moreover have "lookup2 from_vault (t, k) = None"
    using vault
  proof (cases rule: load_secrets_from_vault_cases)
    case 1
    then show ?thesis by simp
  next
    case (2 client)
    have skip: "vault_entry w client (PDict r) = Inr None"
      using assms(2) by simp
    from 2(2) wf ref skip show ?thesis
      by (rule lookup2_fill_targets_at)
  qed
  ultimately show "lookup2 out (t, k) = Some (PStr x)"
    by (simp add: look map_add_def)
next
  assume none: "environ w name = None"
  have entry: "env_entry w (PDict r) = Inl (missing_env_key name)"
    using assms(2,3) none by (simp add: dict_item_def)
  from fill_targets_fails [where f = "env_entry w" and v = "PDict r", OF entry,
      of pre t kpre k kpost post "[]"]
  obtain e where "load_secrets_from_env w secrets_info configuration = Inl e"
    by (auto simp: load_secrets_from_env_def env_targets_fill assms(1))
  then show "\<exists>e. load_secrets w secrets_info configuration = Inl e"
    by (auto dest: load_secrets_env_fails)
  fix s d
  assume "env_targets w pre [] = Inr s" and "env_keys w kpre [] = Inr d"
  then have "load_secrets_from_env w secrets_info configuration = Inl (missing_env_key name)"
    unfolding load_secrets_from_env_def env_targets_fill env_keys_fill assms(1)
    by (rule fill_targets_fails_at [where f = "env_entry w" and v = "PDict r", OF entry])
  then show "load_secrets w secrets_info configuration =
      Inl (InvalidExperiment
             (''Secrets make reference to an environment key that does not exist: '' @ name))"
    by (simp add: load_secrets_env_fails missing_env_key_def)
qed

theorem env_reference_resolved_or_fatal_witness:
  "environ world_with_store ''MYVAR'' = Some ''hello'' \<and> wf_secrets example_spec \<and>
   load_secrets world_with_store example_spec (Some []) =
     Inr [(''t1'', [(''s1'', PStr ''v1'')]), (''t2'', [(''s2'', PStr ''hello'')]),
          (''t3'', [(''s3'', PStr ''shhh'')])] \<and>
   lookup2 [(''t1'', [(''s1'', PStr ''v1'')]), (''t2'', [(''s2'', PStr ''hello'')]),
            (''t3'', [(''s3'', PStr ''shhh'')])] (''t2'', ''s2'') = Some (PStr ''hello'') \<and>
   environ world_with_store ''NOPE'' = None \<and>
   load_secrets world_with_store spec_missing_variable (Some []) =
     Inl (InvalidExperiment
            ''Secrets make reference to an environment key that does not exist: NOPE'')"
proof -
  let ?out = "[(''t1'', [(''s1'', PStr ''v1'')]), (''t2'', [(''s2'', PStr ''hello'')]),
               (''t3'', [(''s3'', PStr ''shhh'')])]"
  have present: "environ world_with_store ''MYVAR'' = Some ''hello''"
    and absent: "environ world_with_store ''NOPE'' = None"
    by (simp_all add: world_with_store_def)
  have wf: "wf_secrets example_spec"
    by (simp add: wf_secrets_def example_spec_def)
  have out: "load_secrets world_with_store example_spec (Some []) = Inr ?out"
    by (simp add: eval_simps example_spec_def)
  have split1: "example_spec =
      [(''t1'', [(''s1'', PStr ''v1'')])]
      @ (''t2'', [] @ (''s2'', PDict [(''type'', PStr ''env''), (''key'', PStr ''MYVAR'')]) # [])
      # [(''t3'', [(''s3'', PDict [(''type'', PStr ''vault''), (''path'', PStr ''foo/bar''),
                                  (''key'', PStr ''pw'')])])]"
    by (simp add: example_spec_def)
  have split2: "spec_missing_variable =
      [(''t1'', [(''s1'', PStr ''v1'')])]
      @ (''t2'', [] @ (''s2'', PDict [(''type'', PStr ''env''), (''key'', PStr ''NOPE'')]) # [])
      # [(''t3'', [(''s3'', PDict [(''type'', PStr ''env'')])])]"
    by (simp add: spec_missing_variable_def)
  have tag1: "dict_get [(''type'', PStr ''env''), (''key'', PStr ''MYVAR'')] ''type'' = PStr ''env''"
    and key1: "map_of [(''type'', PStr ''env''), (''key'', PStr ''MYVAR'')] ''key'' = Some (PStr ''MYVAR'')"
    and tag2: "dict_get [(''type'', PStr ''env''), (''key'', PStr ''NOPE'')] ''type'' = PStr ''env''"
    and key2: "map_of [(''type'', PStr ''env''), (''key'', PStr ''NOPE'')] ''key'' = Some (PStr ''NOPE'')"
    by (simp_all add: eval_simps)
  have before: "env_targets world_with_store [(''t1'', [(''s1'', PStr ''v1'')])] [] = Inr []"
    "env_keys world_with_store [] [] = Inr []"
    by (simp_all add: eval_simps)
  have "lookup2 ?out (''t2'', ''s2'') = Some (PStr ''hello'')"
    using env_reference_resolved_or_fatal [OF split1 tag1 key1, of world_with_store "Some []"]
      present wf out by blast
  moreover have "load_secrets world_with_store spec_missing_variable (Some []) =
     Inl (InvalidExperiment
            (''Secrets make reference to an environment key that does not exist: '' @ ''NOPE''))"
    using env_reference_resolved_or_fatal [OF split2 tag2 key2, of world_with_store "Some []"]
      absent before by blast
  ultimately show ?thesis
    using present absent wf out by simp
qed

theorem env_reference_counterexample:
  "environ world_with_store ''MYVAR'' = Some ''hello'' \<and>
   environ world_with_store ''NOPE'' = None \<and>
   lookup2 spec_env_without_key (''t2'', ''s2'') =
     Some (PDict [(''type'', PStr ''env''), (''key'', PStr ''MYVAR'')]) \<and>
   lookup2 spec_env_without_key (''t3'', ''s4'') =
     Some (PDict [(''type'', PStr ''env''), (''key'', PStr ''NOPE'')]) \<and>
   load_secrets world_with_store spec_env_without_key (Some []) = Inl (KeyError ''key'')"
  by (simp add: eval_simps spec_env_without_key_def lookup2_def)

text \<open>
  C10, as amended: an entry tagged \<^verbatim>\<open>env\<close> without a \<^verbatim>\<open>key\<close> field makes \<^verbatim>\<open>load_secrets\<close> fail; when
  the environment loader reaches the entry (the targets and the entries before it
  resolve) the failure is the \<^verbatim>\<open>KeyError\<close> of the subscript \<^verbatim>\<open>value["key"]\<close>, which is not
  an \<^verbatim>\<open>InvalidExperiment\<close>.
\<close>

theorem env_reference_without_key:
  assumes "secrets_info = pre @ (t, kpre @ (k, PDict r) # kpost) # post"
    and "dict_get r ''type'' = PStr ''env''"
    and "''key'' \<notin> fst ` set r"
  shows "(\<exists>e. load_secrets w secrets_info configuration = Inl e) \<and>
         (\<forall>s d. env_targets w pre [] = Inr s \<longrightarrow> env_keys w kpre [] = Inr d \<longrightarrow>
            load_secrets w secrets_info configuration = Inl (KeyError ''key'') \<and>
            (\<forall>msg. load_secrets w secrets_info configuration \<noteq> Inl (InvalidExperiment msg)))"
proof (intro conjI allI impI)
  from assms(3) have "map_of r ''key'' = None"
    by (simp add: map_of_eq_None_iff)
  then have entry: "env_entry w (PDict r) = Inl (KeyError ''key'')"
    using assms(2) by (simp add: dict_item_def)
  from fill_targets_fails [where f = "env_entry w" and v = "PDict r", OF entry,
      of pre t kpre k kpost post "[]"]
  obtain e where "load_secrets_from_env w secrets_info configuration = Inl e"
    by (auto simp: load_secrets_from_env_def env_targets_fill assms(1))
  then show "\<exists>e. load_secrets w secrets_info configuration = Inl e"
    by (auto dest: load_secrets_env_fails)
  fix s d
  assume "env_targets w pre [] = Inr s" and "env_keys w kpre [] = Inr d"
  then have "load_secrets_from_env w secrets_info configuration = Inl (KeyError ''key'')"
    unfolding load_secrets_from_env_def env_targets_fill env_keys_fill assms(1)
    by (rule fill_targets_fails_at [where f = "env_entry w" and v = "PDict r", OF entry])
  then show key: "load_secrets w secrets_info configuration = Inl (KeyError ''key'')"
    by (rule load_secrets_env_fails)
  fix msg
  show "load_secrets w secrets_info configuration \<noteq> Inl (InvalidExperiment msg)"
    by (simp add: key)
qed

theorem env_reference_without_key_witness:
  "''key'' \<notin> fst ` set [(''type'', PStr ''env'')] \<and>
   env_targets world_with_store [(''t1'', [(''s1'', PStr ''v1'')])] [] = Inr [] \<and>
   env_keys world_with_store
     [(''s2'', PDict [(''type'', PStr ''env''), (''key'', PStr ''MYVAR'')])] [] =
     Inr [(''s2'', PStr ''hello'')] \<and>
   load_secrets world_with_store spec_env_without_key (Some []) = Inl (KeyError ''key'')"
proof -
  have split: "spec_env_without_key =
      [(''t1'', [(''s1'', PStr ''v1'')])]
      @ (''t2'', [(''s2'', PDict [(''type'', PStr ''env''), (''key'', PStr ''MYVAR'')])]
                 @ (''s3'', PDict [(''type'', PStr ''env'')]) # [])
      # [(''t3'', [(''s4'', PDict [(''type'', PStr ''env''), (''key'', PStr ''NOPE'')])])]"
    by (simp add: spec_env_without_key_def)
  have tag: "dict_get [(''type'', PStr ''env'')] ''type'' = PStr ''env''"
    and nokey: "''key'' \<notin> fst ` set [(''type'', PStr ''env'')]"
    by (simp_all add: eval_simps)
  have before: "env_targets world_with_store [(''t1'', [(''s1'', PStr ''v1'')])] [] = Inr []"
    "env_keys world_with_store
       [(''s2'', PDict [(''type'', PStr ''env''), (''key'', PStr ''MYVAR'')])] [] =
       Inr [(''s2'', PStr ''hello'')]"
    by (simp_all add: eval_simps)
  have "load_secrets world_with_store spec_env_without_key (Some []) = Inl (KeyError ''key'')"
    using env_reference_without_key [OF split tag nokey, of world_with_store "Some []"] before
    by blast
  with nokey before show ?thesis by simp
qed

theorem env_reference_without_key_counterexample:
  "lookup2 spec_missing_variable (''t3'', ''s3'') = Some (PDict [(''type'', PStr ''env'')]) \<and>
   ''key'' \<notin> fst ` set [(''type'', PStr ''env'')] \<and>
   load_secrets world_with_store spec_missing_variable (Some []) =
     Inl (InvalidExperiment
            ''Secrets make reference to an environment key that does not exist: NOPE'')"
  by (simp add: eval_simps spec_missing_variable_def lookup2_def)

section \<open>The inline resolver\<close>

lemma inline_entry_spec:
  "inline_entry v = (if spec_inline_includes v then Some v else None)"
  by (cases v) auto

lemma env_entry_literal: "spec_inline_includes v \<Longrightarrow> env_entry w v = Inr None"
  by (cases v) auto

lemma vault_entry_literal: "spec_inline_includes v \<Longrightarrow> vault_entry w client v = Inr None"
  by (cases v) auto

lemma fill_keys_all_kept:
  "distinct (map fst keys) \<Longrightarrow> fst ` set keys \<inter> fst ` set acc = {} \<Longrightarrow>
   (\<And>k v. (k, v) \<in> set keys \<Longrightarrow> f v = Inr (Some v)) \<Longrightarrow>
   fill_keys f keys acc = Inr (acc @ keys)"
proof (induction keys arbitrary: acc)
  case Nil
  then show ?case by simp
next
  case (Cons p keys)
  obtain k v where p: "p = (k, v)" by (cases p)
  from Cons.prems(2) p have fresh: "k \<notin> fst ` set acc" by auto
  have "fill_keys f keys (acc @ [(k, v)]) = Inr ((acc @ [(k, v)]) @ keys)"
  proof (rule Cons.IH)
    show "distinct (map fst keys)" using Cons.prems(1) by simp
    show "fst ` set keys \<inter> fst ` set (acc @ [(k, v)]) = {}"
      using Cons.prems(1,2) p by auto
    show "\<And>k v. (k, v) \<in> set keys \<Longrightarrow> f v = Inr (Some v)"
      using Cons.prems(3) by auto
  qed
  moreover have "f v = Inr (Some v)"
    using Cons.prems(3) [of k v] p by simp
  ultimately show ?case
    by (simp add: p update_fresh [OF fresh])
qed

lemma fill_keys_none:
  "(\<And>k v. (k, v) \<in> set keys \<Longrightarrow> f v = Inr None) \<Longrightarrow> fill_keys f keys acc = Inr acc"
proof (induction keys arbitrary: acc)
  case Nil
  then show ?case by simp
next
  case (Cons p keys)
  obtain k v where p: "p = (k, v)" by (cases p)
  have "f v = Inr None" using Cons.prems [of k v] p by simp
  moreover have "f v' = Inr None" if "(k', v') \<in> set keys" for k' v'
    using Cons.prems [of k' v'] that by simp
  then have "fill_keys f keys acc = Inr acc"
    by (rule Cons.IH)
  ultimately show ?case by (simp add: p)
qed

lemma fill_targets_all_kept:
  "distinct (map fst si) \<Longrightarrow> fst ` set si \<inter> fst ` set s = {} \<Longrightarrow>
   (\<And>t keys. (t, keys) \<in> set si \<Longrightarrow> fill_keys f keys [] = Inr keys \<and> keys \<noteq> []) \<Longrightarrow>
   fill_targets f si s = Inr (s @ si)"
proof (induction si arbitrary: s)
  case Nil
  then show ?case by simp
next
  case (Cons p si)
  obtain t keys where p: "p = (t, keys)" by (cases p)
  from Cons.prems(2) p have fresh: "t \<notin> fst ` set s" by auto
  from Cons.prems(3) [of t keys] p have keys: "fill_keys f keys [] = Inr keys" "keys \<noteq> []"
    by simp_all
  have "fill_targets f si (s @ [(t, keys)]) = Inr ((s @ [(t, keys)]) @ si)"
  proof (rule Cons.IH)
    show "distinct (map fst si)" using Cons.prems(1) by simp
    show "fst ` set si \<inter> fst ` set (s @ [(t, keys)]) = {}"
      using Cons.prems(1,2) p by auto
    show "\<And>t keys. (t, keys) \<in> set si \<Longrightarrow> fill_keys f keys [] = Inr keys \<and> keys \<noteq> []"
      using Cons.prems(3) by auto
  qed
  then show ?case
    by (simp add: p keys close_target_fresh [OF fresh])
qed

lemma fill_targets_none:
  "(\<And>t keys. (t, keys) \<in> set si \<Longrightarrow> fill_keys f keys [] = Inr []) \<Longrightarrow>
   fill_targets f si [] = Inr []"
proof (induction si)
  case Nil
  then show ?case by simp
next
  case (Cons p si)
  obtain t keys where p: "p = (t, keys)" by (cases p)
  have "fill_keys f keys [] = Inr []" using Cons.prems [of t keys] p by simp
  moreover have "fill_keys f keys' [] = Inr []" if "(t', keys') \<in> set si" for t' keys'
    using Cons.prems [of t' keys'] that by simp
  then have "fill_targets f si [] = Inr []"
    by (rule Cons.IH)
  ultimately show ?case by (simp add: p)
qed

lemma only_literals_mem:
  "only_literals si \<Longrightarrow> (t, keys) \<in> set si \<Longrightarrow> (k, v) \<in> set keys \<Longrightarrow> spec_inline_includes v"
  by (auto simp: only_literals_def list_all_iff)

lemma load_inline_secrets_literals:
  assumes "wf_secrets si" and "only_literals si" and "no_empty_target si"
  shows "load_inline_secrets si cfg = si"
proof -
  have "fill_targets (\<lambda>v. Inr (inline_entry v) :: pyerror + pyval option) si [] = Inr ([] @ si)"
  proof (rule fill_targets_all_kept)
    show "distinct (map fst si)" using assms(1) by (simp add: wf_secrets_def)
    show "fst ` set si \<inter> fst ` set [] = {}" by simp
    fix t keys
    assume mem: "(t, keys) \<in> set si"
    have "fill_keys (\<lambda>v. Inr (inline_entry v) :: pyerror + pyval option) keys [] = Inr ([] @ keys)"
    proof (rule fill_keys_all_kept)
      show "distinct (map fst keys)"
        using assms(1) mem by (auto simp: wf_secrets_def list_all_iff)
      show "fst ` set keys \<inter> fst ` set [] = {}" by simp
      show "\<And>k v. (k, v) \<in> set keys \<Longrightarrow> Inr (inline_entry v) = Inr (Some v)"
        using only_literals_mem [OF assms(2) mem] by (simp add: inline_entry_spec)
    qed
    moreover have "keys \<noteq> []"
      using assms(3) mem by (auto simp: no_empty_target_def list_all_iff)
    ultimately show "fill_keys (\<lambda>v. Inr (inline_entry v) :: pyerror + pyval option) keys [] = Inr keys
        \<and> keys \<noteq> []"
      by simp
  qed
  then show ?thesis
    by (simp add: load_inline_secrets_def inline_targets_fill)
qed

lemma fill_targets_literals:
  assumes "only_literals si" and "\<And>v. spec_inline_includes v \<Longrightarrow> f v = Inr None"
  shows "fill_targets f si [] = Inr []"
proof (rule fill_targets_none)
  fix t keys
  assume mem: "(t, keys) \<in> set si"
  show "fill_keys f keys [] = Inr []"
  proof (rule fill_keys_none)
    fix k v
    assume "(k, v) \<in> set keys"
    from only_literals_mem [OF assms(1) mem this] show "f v = Inr None"
      by (rule assms(2))
  qed
qed

text \<open>
  C7, as amended: for a well-formed secrets definition the inline loader's result has
  exactly the entries whose value is not a dictionary, or is a dictionary whose
  \<^verbatim>\<open>type\<close> is neither \<^verbatim>\<open>"env"\<close> nor \<^verbatim>\<open>"vault"\<close>, each with its value. When all values are
  of this kind, no target is empty, and the store client can be created,
  \<^verbatim>\<open>load_secrets\<close> returns the secrets definition as it is. (A target with no secrets
  is dropped, and the store client is created whatever the definition holds, so its
  failure fails the call.)
\<close>

theorem inline_keeps_literals:
  assumes "wf_secrets secrets_info"
  shows "lookup2 (load_inline_secrets secrets_info configuration) (t, k) =
           (case lookup2 secrets_info (t, k) of
              None \<Rightarrow> None
            | Some ref \<Rightarrow> if spec_inline_includes ref then Some ref else None) \<and>
         (only_literals secrets_info \<longrightarrow> no_empty_target secrets_info \<longrightarrow>
          (\<forall>client. create_vault_client w configuration = Inr client \<longrightarrow>
             load_secrets w secrets_info configuration = Inr secrets_info))"
proof (intro conjI impI allI)
  have "fill_targets (\<lambda>v. Inr (inline_entry v) :: pyerror + pyval option) secrets_info [] =
          Inr (load_inline_secrets secrets_info configuration)"
    by (simp add: load_inline_secrets_def inline_targets_fill)
  from lookup2_fill_targets [OF this assms, of t k]
  show "lookup2 (load_inline_secrets secrets_info configuration) (t, k) =
           (case lookup2 secrets_info (t, k) of
              None \<Rightarrow> None
            | Some ref \<Rightarrow> if spec_inline_includes ref then Some ref else None)"
    by (simp add: inline_entry_spec split: option.splits)
next
  fix client
  assume lit: "only_literals secrets_info" and ne: "no_empty_target secrets_info"
    and client: "create_vault_client w configuration = Inr client"
  have inline: "load_inline_secrets secrets_info configuration = secrets_info"
    using assms lit ne by (rule load_inline_secrets_literals)
  have env: "load_secrets_from_env w secrets_info configuration = Inr []"
    unfolding load_secrets_from_env_def env_targets_fill
    using lit by (rule fill_targets_literals) (rule env_entry_literal)
  have "vault_targets w client secrets_info [] = Inr []"
    unfolding vault_targets_fill
    using lit by (rule fill_targets_literals) (rule vault_entry_literal)
  then have vault: "load_secrets_from_vault w secrets_info configuration = Inr []"
    by (simp add: load_secrets_from_vault_def client)
  have "merge_loaded secrets_info [] = [] @ secrets_info"
    using assms by (rule merge_loaded_fresh) simp
  then show "load_secrets w secrets_info configuration = Inr secrets_info"
    by (simp add: load_secrets_unfold inline env vault)
qed

theorem inline_keeps_literals_witness:
  "wf_secrets spec_literals \<and> only_literals spec_literals \<and> no_empty_target spec_literals \<and>
   create_vault_client world_with_store (Some conf_token) =
     Inr (Some \<lparr>url = PStr ''http://vault:8200'', default_kv_version = ''2'',
                token = PStr ''s.static''\<rparr>) \<and>
   load_secrets world_with_store spec_literals (Some conf_token) = Inr spec_literals \<and>
   lookup2 (load_inline_secrets example_spec None) (''t1'', ''s1'') = Some (PStr ''v1'') \<and>
   lookup2 (load_inline_secrets example_spec None) (''t2'', ''s2'') = None"
proof -
  have wf: "wf_secrets spec_literals" "wf_secrets example_spec"
    by (simp_all add: wf_secrets_def spec_literals_def example_spec_def)
  have lit: "only_literals spec_literals" and ne: "no_empty_target spec_literals"
    by (simp_all add: only_literals_def no_empty_target_def spec_literals_def eval_simps)
  have client: "create_vault_client world_with_store (Some conf_token) =
     Inr (Some \<lparr>url = PStr ''http://vault:8200'', default_kv_version = ''2'',
                token = PStr ''s.static''\<rparr>)"
    by (simp add: eval_simps conf_token_def)
  have "load_secrets world_with_store spec_literals (Some conf_token) = Inr spec_literals"
    using inline_keeps_literals [OF wf(1), of "Some conf_token" _ _ world_with_store]
      lit ne client by blast
  moreover have "lookup2 (load_inline_secrets example_spec None) (''t1'', ''s1'') = Some (PStr ''v1'')"
    using inline_keeps_literals [OF wf(2), of None "''t1''" "''s1''"]
    by (simp add: lookup2_def example_spec_def)
  moreover have "lookup2 (load_inline_secrets example_spec None) (''t2'', ''s2'') = None"
    using inline_keeps_literals [OF wf(2), of None "''t2''" "''s2''"]
    by (simp add: lookup2_def example_spec_def eval_simps)
  ultimately show ?thesis
    using wf lit ne client by simp
qed

theorem literals_unchanged_counterexample:
  "wf_secrets [(''t1'', [])] \<and> only_literals [(''t1'', [])] \<and>
   load_secrets world_without_hvac [(''t1'', [])] None = Inr [] \<and>
   load_secrets world_without_hvac [(''t1'', [])] None \<noteq> Inr [(''t1'', [])] \<and>
   wf_secrets [(''t1'', [(''s1'', PStr ''v1'')])] \<and>
   only_literals [(''t1'', [(''s1'', PStr ''v1'')])] \<and>
   load_secrets world_with_store [(''t1'', [(''s1'', PStr ''v1'')])] (Some (conf_role ''wrong'')) =
     Inl (InvalidExperiment ''Failed to connect to Vault with the AppRole: permission denied'')"
  by (simp add: wf_secrets_def only_literals_def eval_simps conf_role_def)

section \<open>Targets of the result and the secrets that fill them\<close>

lemma lookup2_fill_targets_Some:
  assumes "fill_targets f si [] = Inr loaded" and "wf_secrets si"
    and "lookup2 loaded (t, k) = Some x"
  shows "\<exists>v. lookup2 si (t, k) = Some v \<and> f v = Inr (Some x)"
  using assms(3) unfolding lookup2_fill_targets [OF assms(1,2), of t k]
  by (auto split: option.splits sum.splits)

lemma lookup2_load_secrets_from_vault_Some:
  assumes "load_secrets_from_vault w si cfg = Inr loaded" and "wf_secrets si"
    and "lookup2 loaded (t, k) = Some x"
  shows "\<exists>v client. lookup2 si (t, k) = Some v \<and> create_vault_client w cfg = Inr client \<and>
           vault_entry w client v = Inr (Some x)"
  using assms(1)
proof (cases rule: load_secrets_from_vault_cases)
  case 1
  with assms(3) show ?thesis by simp
next
  case (2 client)
  from lookup2_fill_targets_Some [OF 2(2) assms(2,3)] 2(1) show ?thesis by blast
qed

text \<open>
  C4, as amended: when \<^verbatim>\<open>load_secrets\<close> returns, no target of the result has an empty
  dictionary as its value, and a target that is present holds at least one secret. For
  a well-formed secrets definition every secret of the result is the value that the
  inline, the environment or the store loader made of the definition's entry of that
  target and name; so a target none of whose entries gets a value from any of the
  three loaders is absent from the result.
\<close>

theorem no_target_without_a_secret:
  assumes "load_secrets w secrets_info configuration = Inr out"
  shows "(t, []) \<notin> set out \<and>
         (t \<in> fst ` set out \<longrightarrow> (\<exists>k x. lookup2 out (t, k) = Some x)) \<and>
         (wf_secrets secrets_info \<longrightarrow>
            (\<forall>k x. lookup2 out (t, k) = Some x \<longrightarrow>
               (\<exists>v. lookup2 secrets_info (t, k) = Some v \<and>
                  (inline_entry v = Some x \<or> env_entry w v = Inr (Some x) \<or>
                   (\<exists>client. create_vault_client w configuration = Inr client \<and>
                      vault_entry w client v = Inr (Some x))))) \<and>
            ((\<forall>k v. lookup2 secrets_info (t, k) = Some v \<longrightarrow>
                inline_entry v = None \<and> env_entry w v = Inr None \<and>
                (\<forall>client. create_vault_client w configuration = Inr client \<longrightarrow>
                   vault_entry w client v = Inr None)) \<longrightarrow>
             t \<notin> fst ` set out))"
proof -
  let ?inline = "load_inline_secrets secrets_info configuration"
  note shape = load_secrets_no_empty_target [OF assms, of t]
  from assms obtain from_env from_vault
    where env: "load_secrets_from_env w secrets_info configuration = Inr from_env"
      and vault: "load_secrets_from_vault w secrets_info configuration = Inr from_vault"
    by (auto simp: load_secrets_unfold split: sum.splits)
  have look: "lookup2 out = lookup2 ?inline ++ lookup2 from_env ++ lookup2 from_vault"
    using env vault assms by (rule lookup2_load_secrets)
  have origin: "\<exists>v. lookup2 secrets_info (t, k) = Some v \<and>
                  (inline_entry v = Some x \<or> env_entry w v = Inr (Some x) \<or>
                   (\<exists>client. create_vault_client w configuration = Inr client \<and>
                      vault_entry w client v = Inr (Some x)))"
    if wf: "wf_secrets secrets_info" and x: "lookup2 out (t, k) = Some x" for k x
  proof -
    from x consider "lookup2 from_vault (t, k) = Some x"
      | "lookup2 from_env (t, k) = Some x"
      | "lookup2 ?inline (t, k) = Some x"
      unfolding look by (auto simp: map_add_def split: option.splits)
    then show ?thesis
    proof cases
      case 1
      from lookup2_load_secrets_from_vault_Some [OF vault wf 1] show ?thesis by blast
    next
      case 2
      from lookup2_fill_targets_Some
        [OF env [unfolded load_secrets_from_env_def env_targets_fill] wf 2]
      show ?thesis by blast
    next
      case 3
      have "fill_targets (\<lambda>v. Inr (inline_entry v) :: pyerror + pyval option) secrets_info [] =
              Inr ?inline"
        by (simp add: load_inline_secrets_def inline_targets_fill)
      from lookup2_fill_targets_Some [OF this wf 3] show ?thesis by auto
    qed
  qed
  have absent: "t \<notin> fst ` set out"
    if wf: "wf_secrets secrets_info"
      and fail: "\<forall>k v. lookup2 secrets_info (t, k) = Some v \<longrightarrow>
                inline_entry v = None \<and> env_entry w v = Inr None \<and>
                (\<forall>client. create_vault_client w configuration = Inr client \<longrightarrow>
                   vault_entry w client v = Inr None)"
  proof
    assume "t \<in> fst ` set out"
    with shape obtain k x where x: "lookup2 out (t, k) = Some x" by blast
    from origin [OF wf x] obtain v where v: "lookup2 secrets_info (t, k) = Some v"
      and some: "inline_entry v = Some x \<or> env_entry w v = Inr (Some x) \<or>
                   (\<exists>client. create_vault_client w configuration = Inr client \<and>
                      vault_entry w client v = Inr (Some x))"
      by blast
    from fail v have "inline_entry v = None" "env_entry w v = Inr None"
      "\<forall>client. create_vault_client w configuration = Inr client \<longrightarrow>
         vault_entry w client v = Inr None"
      by blast+
    with some show False by auto
  qed
  from shape origin absent show ?thesis by blast
qed

theorem no_target_without_a_secret_witness:
  "load_secrets world_with_store spec_missing_path (Some []) =
     Inr [(''t1'', [(''s1'', PStr ''v1'')])] \<and>
   wf_secrets spec_missing_path \<and>
   lookup2 spec_missing_path (''t4'', ''s4'') =
     Some (PDict [(''type'', PStr ''vault''), (''path'', PStr ''missing'')]) \<and>
   vault_entry world_with_store (Some (example_client PNone))
     (PDict [(''type'', PStr ''vault''), (''path'', PStr ''missing'')]) = Inr None \<and>
   ''t4'' \<notin> fst ` set [(''t1'', [(''s1'', PStr ''v1'')])] \<and>
   (''t1'', []) \<notin> set [(''t1'', [(''s1'', PStr ''v1'')])] \<and>
   lookup2 [(''t1'', [(''s1'', PStr ''v1'')])] (''t1'', ''s1'') = Some (PStr ''v1'') \<and>
   lookup2 spec_missing_path (''t1'', ''s1'') = Some (PStr ''v1'') \<and>
   inline_entry (PStr ''v1'') = Some (PStr ''v1'')"
proof -
  let ?out = "[(''t1'', [(''s1'', PStr ''v1'')])]"
  have h: "load_secrets world_with_store spec_missing_path (Some []) = Inr ?out"
    by (simp add: eval_simps spec_missing_path_def)
  have wf: "wf_secrets spec_missing_path"
    by (simp add: wf_secrets_def spec_missing_path_def)
  have fail: "\<forall>k v. lookup2 spec_missing_path (''t4'', k) = Some v \<longrightarrow>
      inline_entry v = None \<and> env_entry world_with_store v = Inr None \<and>
      (\<forall>client. create_vault_client world_with_store (Some []) = Inr client \<longrightarrow>
         vault_entry world_with_store client v = Inr None)"
    by (auto simp: lookup2_def spec_missing_path_def eval_simps split: if_splits)
  have "''t4'' \<notin> fst ` set ?out"
    using no_target_without_a_secret [OF h, of "''t4''"] wf fail by blast
  moreover have "(''t1'', []) \<notin> set ?out"
    using no_target_without_a_secret [OF h, of "''t1''"] by blast
  ultimately show ?thesis
    using h wf by (simp add: lookup2_def spec_missing_path_def eval_simps)
qed

theorem target_with_null_secret_counterexample:
  "read_payload world_with_store (example_client PNone) (PStr ''nodata'') =
     Inr (PDict [(''data'', PDict [(''metadata'', PDict [(''version'', PInt 1)])])]) \<and>
   payload_data (example_client PNone)
     (PDict [(''data'', PDict [(''metadata'', PDict [(''version'', PInt 1)])])]) = Inr PNone \<and>
   load_secrets world_with_store spec_no_data (Some []) = Inr [(''t5'', [(''s5'', PNone)])] \<and>
   load_secrets world_without_hvac [(''t'', [(''s'', PNone)])] None =
     Inr [(''t'', [(''s'', PNone)])]"
  by (simp add: eval_simps spec_no_data_def)

end
